theory Spec2Isabelle
  imports Main "HOL-Library.Multiset"
begin

section \<open>Strings\<close>

text \<open>
  A JavaScript string is a sequence of UTF-16 code units. A code unit is modelled as a
  natural number and a string as a list of them, so that the whitespace class of the
  regular expressions and of \<open>trim\<close> (which has members above U+00FF) is the source's.
  \<open>str\<close> turns an ASCII literal of the source into such a list.
\<close>

type_synonym jsstring = "nat list"

definition str :: "string \<Rightarrow> jsstring" where
  "str s = map of_char s"

abbreviation ch :: "char \<Rightarrow> nat" where
  "ch c \<equiv> of_char c"

text \<open>The class \<open>\s\<close>: ECMAScript WhiteSpace and LineTerminator code points.\<close>

definition isSpace :: "nat \<Rightarrow> bool" where
  "isSpace c = (c = 9 \<or> c = 10 \<or> c = 11 \<or> c = 12 \<or> c = 13 \<or> c = 32 \<or> c = 160
     \<or> c = 5760 \<or> (8192 \<le> c \<and> c \<le> 8202) \<or> c = 8232 \<or> c = 8233 \<or> c = 8239
     \<or> c = 8287 \<or> c = 12288 \<or> c = 65279)"

text \<open>The class \<open>\w\<close>: ASCII letters, digits and the underscore.\<close>

definition isWord :: "nat \<Rightarrow> bool" where
  "isWord c = ((48 \<le> c \<and> c \<le> 57) \<or> (65 \<le> c \<and> c \<le> 90) \<or> c = 95 \<or> (97 \<le> c \<and> c \<le> 122))"

text \<open>
  Canonicalisation under the \<open>i\<close> flag, for the ASCII characters the patterns of this
  program are written in: a lower-case ASCII letter is compared as its upper-case
  letter. (ECMAScript never canonicalises a code unit above 127 to one below 128.)
\<close>

definition canon :: "nat \<Rightarrow> nat" where
  "canon c = (if 97 \<le> c \<and> c \<le> 122 then c - 32 else c)"

text \<open>\<open>String.prototype.trim\<close>.\<close>

definition trim :: "jsstring \<Rightarrow> jsstring" where
  "trim s = rev (dropWhile isSpace (rev (dropWhile isSpace s)))"

text \<open>\<open>String.prototype.split\<close> with a one-character separator, and \<open>Array.prototype.join\<close>.\<close>

fun split :: "nat \<Rightarrow> jsstring \<Rightarrow> jsstring list" where
  "split sep [] = [[]]"
| "split sep (c # cs) =
     (if c = sep then [] # split sep cs
      else (case split sep cs of [] \<Rightarrow> [[c]] | x # xs \<Rightarrow> (c # x) # xs))"

fun join :: "jsstring \<Rightarrow> jsstring list \<Rightarrow> jsstring" where
  "join sep [] = []"
| "join sep [x] = x"
| "join sep (x # y # ys) = x @ sep @ join sep (y # ys)"

text \<open>\<open>String(n)\<close> for a non-negative integer: its decimal digits.\<close>

fun showNat :: "nat \<Rightarrow> jsstring" where
  "showNat n = (if n < 10 then [48 + n] else showNat (n div 10) @ [48 + n mod 10])"

declare showNat.simps [simp del]

section \<open>Regular expressions\<close>

text \<open>
  The regular expressions of the source are values of \<open>rx\<close>, and they are run by a
  backtracking matcher in continuation-passing style, which is how ECMAScript defines
  matching: a matcher takes the state (captures, the code unit before the position,
  the rest of the input) and a continuation, and the first alternative whose
  continuation succeeds wins. Quantifiers are greedy. \<open>Star\<close> is the quantifier \<open>*\<close> on
  a character class, which is the only way the source uses it; \<open>Opt\<close> is \<open>?\<close>.
\<close>

datatype rx =
    Chr "nat \<Rightarrow> bool"
  | Eps
  | Seq rx rx
  | Alt rx rx
  | Opt rx
  | Star "nat \<Rightarrow> bool"
  | Cap nat rx
  | Bol
  | WordB

type_synonym caps = "nat \<rightharpoonup> jsstring"
type_synonym mstate = "caps \<times> nat option \<times> jsstring"

definition wordBefore :: "nat option \<Rightarrow> bool" where
  "wordBefore p = (case p of None \<Rightarrow> False | Some c \<Rightarrow> isWord c)"

definition wordAfter :: "jsstring \<Rightarrow> bool" where
  "wordAfter s = (case s of [] \<Rightarrow> False | c # _ \<Rightarrow> isWord c)"

fun rmatch :: "rx \<Rightarrow> mstate \<Rightarrow> (mstate \<Rightarrow> 'a option) \<Rightarrow> 'a option" where
  "rmatch (Chr P) (cs, p, []) k = None"
| "rmatch (Chr P) (cs, p, c # s) k = (if P c then k (cs, Some c, s) else None)"
| "rmatch Eps st k = k st"
| "rmatch (Seq a b) st k = rmatch a st (\<lambda>st'. rmatch b st' k)"
| "rmatch (Alt a b) st k = (case rmatch a st k of Some r \<Rightarrow> Some r | None \<Rightarrow> rmatch b st k)"
| "rmatch (Opt a) st k = (case rmatch a st k of Some r \<Rightarrow> Some r | None \<Rightarrow> k st)"
| "rmatch (Star P) (cs, p, []) k = k (cs, p, [])"
| "rmatch (Star P) (cs, p, c # s) k =
     (if P c
      then (case rmatch (Star P) (cs, Some c, s) k of Some r \<Rightarrow> Some r | None \<Rightarrow> k (cs, p, c # s))
      else k (cs, p, c # s))"
| "rmatch (Cap n a) (cs, p, s) k =
     rmatch a (cs, p, s) (\<lambda>(cs', p', s'). k (cs'(n \<mapsto> take (length s - length s') s), p', s'))"
| "rmatch Bol (cs, p, s) k = (if p = None then k (cs, p, s) else None)"
| "rmatch WordB (cs, p, s) k = (if wordBefore p \<noteq> wordAfter s then k (cs, p, s) else None)"

text \<open>A literal, case-sensitive and under the \<open>i\<close> flag; \<open>r+\<close> on a class.\<close>

definition lit :: "string \<Rightarrow> rx" where
  "lit s = foldr (\<lambda>c r. Seq (Chr (\<lambda>x. x = ch c)) r) s Eps"

definition liti :: "string \<Rightarrow> rx" where
  "liti s = foldr (\<lambda>c r. Seq (Chr (\<lambda>x. canon x = canon (ch c))) r) s Eps"

definition Plus :: "(nat \<Rightarrow> bool) \<Rightarrow> rx" where
  "Plus P = Seq (Chr P) (Star P)"

text \<open>
  \<open>RegExp.prototype.exec\<close> from the start of a string: the pattern is tried at every
  position from the left. The result is the text before the match, the match, the
  captures and the text after the match.
\<close>

definition accept :: "mstate \<Rightarrow> (caps \<times> jsstring) option" where
  "accept st = (case st of (cs, p, s) \<Rightarrow> Some (cs, s))"

fun rexec :: "rx \<Rightarrow> nat option \<Rightarrow> jsstring \<Rightarrow> (jsstring \<times> jsstring \<times> caps \<times> jsstring) option" where
  "rexec r p [] =
     (case rmatch r (Map.empty, p, []) accept of
        Some (cs, s') \<Rightarrow> Some ([], [], cs, s')
      | None \<Rightarrow> None)"
| "rexec r p (c # t) =
     (case rmatch r (Map.empty, p, c # t) accept of
        Some (cs, s') \<Rightarrow> Some ([], take (length (c # t) - length s') (c # t), cs, s')
      | None \<Rightarrow> map_option (\<lambda>(pre, mt, cs, rest). (c # pre, mt, cs, rest)) (rexec r (Some c) t))"

definition rtest :: "rx \<Rightarrow> jsstring \<Rightarrow> bool" where
  "rtest r s = (rexec r None s \<noteq> None)"

text \<open>\<open>String.prototype.replace\<close> with a pattern without the \<open>g\<close> flag: the first match.\<close>

definition replaceFirst :: "rx \<Rightarrow> (jsstring \<Rightarrow> caps \<Rightarrow> jsstring) \<Rightarrow> jsstring \<Rightarrow> jsstring" where
  "replaceFirst r f s =
     (case rexec r None s of None \<Rightarrow> s | Some (pre, mt, cs, rest) \<Rightarrow> pre @ f mt cs @ rest)"

text \<open>A capture group that did not take part in the match reads as the empty string here
  (the source writes \<open>attrs || ''\<close>).\<close>

definition capOr :: "caps \<Rightarrow> nat \<Rightarrow> jsstring" where
  "capOr cs n = (case cs n of None \<Rightarrow> [] | Some x \<Rightarrow> x)"

text \<open>
  \<open>String.prototype.replace\<close> with a pattern with the \<open>g\<close> flag and a replacement function:
  every match, found from the end of the previous one, is replaced. The counter is the
  number of code units of the current match still to be skipped (the distance to
  \<open>lastIndex\<close>); after an empty match the search moves on by one code unit.
\<close>

fun replaceAll :: "rx \<Rightarrow> (jsstring \<Rightarrow> caps \<Rightarrow> jsstring) \<Rightarrow> nat \<Rightarrow> nat option \<Rightarrow> jsstring \<Rightarrow> jsstring" where
  "replaceAll r f k p [] =
     (if k = 0
      then (case rmatch r (Map.empty, p, []) accept of Some (cs, s') \<Rightarrow> f [] cs | None \<Rightarrow> [])
      else [])"
| "replaceAll r f k p (c # t) =
     (if 0 < k then replaceAll r f (k - 1) (Some c) t
      else (case rmatch r (Map.empty, p, c # t) accept of
              Some (cs, s') \<Rightarrow>
                (let n = length (c # t) - length s'
                 in f (take n (c # t)) cs @
                    (if n = 0 then c # replaceAll r f 0 (Some c) t
                     else replaceAll r f (n - 1) (Some c) t))
            | None \<Rightarrow> c # replaceAll r f 0 (Some c) t))"


section \<open>Values of unknown type\<close>

text \<open>
  The fields the source declares as \<open>unknown\<close> hold whatever the question's JSON holds.
  Numbers are modelled as integers. \<open>JUndefined\<close> is an absent property.
\<close>

datatype json =
    JUndefined
  | JNull
  | JBool bool
  | JNum int
  | JStr jsstring
  | JArr "json list"
  | JObj "(jsstring \<times> json) list"

datatype error = TypeError

text \<open>ToBoolean.\<close>

fun truthy :: "json \<Rightarrow> bool" where
  "truthy JUndefined = False"
| "truthy JNull = False"
| "truthy (JBool b) = b"
| "truthy (JNum i) = (i \<noteq> 0)"
| "truthy (JStr s) = (s \<noteq> [])"
| "truthy (JArr xs) = True"
| "truthy (JObj kvs) = True"

text \<open>\<open>String(v)\<close> and the conversion of a template literal.\<close>

fun toStr :: "json \<Rightarrow> jsstring" where
  "toStr JUndefined = str ''undefined''"
| "toStr JNull = str ''null''"
| "toStr (JBool b) = (if b then str ''true'' else str ''false'')"
| "toStr (JNum i) = (if i < 0 then ch CHR ''-'' # showNat (nat (- i)) else showNat (nat i))"
| "toStr (JStr s) = s"
| "toStr (JArr xs) =
     join (str '','') (map (\<lambda>x. case x of JUndefined \<Rightarrow> [] | JNull \<Rightarrow> [] | _ \<Rightarrow> toStr x) xs)"
| "toStr (JObj kvs) = str ''[object Object]''"

text \<open>
  Reading a property that no built-in prototype defines (\<open>A\<close>, \<open>B\<close>, \<open>value\<close>, \<open>unit\<close>,
  \<open>src\<close>, \<open>alt\<close>, \<open>label\<close>, \<open>is_correct\<close>): a TypeError on \<open>null\<close> and \<open>undefined\<close>, the
  own property of an object, \<open>undefined\<close> on everything else.
\<close>

fun getProp :: "json \<Rightarrow> jsstring \<Rightarrow> error + json" where
  "getProp JUndefined k = Inl TypeError"
| "getProp JNull k = Inl TypeError"
| "getProp (JObj kvs) k = Inr (case map_of kvs k of Some v \<Rightarrow> v | None \<Rightarrow> JUndefined)"
| "getProp v k = Inr JUndefined"

text \<open>\<open>Array.prototype.map\<close> with a callback that may throw: the first exception ends it.\<close>

fun mapE :: "('a \<Rightarrow> error + 'b) \<Rightarrow> 'a list \<Rightarrow> error + 'b list" where
  "mapE f [] = Inr []"
| "mapE f (x # xs) =
     (case f x of
        Inl e \<Rightarrow> Inl e
      | Inr y \<Rightarrow> (case mapE f xs of Inl e \<Rightarrow> Inl e | Inr ys \<Rightarrow> Inr (y # ys)))"

section \<open>The question record\<close>

text \<open>The interfaces of the source, with the fields the export reads.\<close>

record Choice =
  choice_label :: jsstring
  choice_value :: jsstring
  is_correct :: "bool option"

record GapKey =
  gap_value :: jsstring
  display_order :: int
  correct_order :: int

record QuestionPart =
  part_n :: int
  part_type :: jsstring
  stem :: jsstring
  choices :: "Choice list option"
  correct_answer :: json
  acceptable_answers :: "jsstring list option"
  gap_keys :: "GapKey list option"
  part_items :: json


section \<open>Helper functions\<close>

text \<open>The patterns of \<open>addLexicalClass\<close>:
  \<open>/<p(\s[^>]*)?\s*>/g\<close>, \<open>/class\s*=/\<close>, \<open>/LexicalTheme__paragraph/\<close>,
  \<open>/class\s*=\s*"([^"]*)"/\<close> and \<open>/dir\s*=/\<close>.\<close>

definition reParagraph :: rx where
  \<open>reParagraph =
     Seq (lit ''<p'')
       (Seq (Opt (Cap 1 (Seq (Chr isSpace) (Star (\<lambda>c. c \<noteq> ch CHR ''>'')))))
         (Seq (Star isSpace) (lit ''>'')))\<close>

definition reClassAttr :: rx where
  \<open>reClassAttr = Seq (lit ''class'') (Seq (Star isSpace) (lit ''=''))\<close>

definition reTheme :: rx where
  \<open>reTheme = lit ''LexicalTheme__paragraph''\<close>

definition reClassValue :: rx where
  \<open>reClassValue =
     Seq (lit ''class'') (Seq (Star isSpace) (Seq (lit ''='') (Seq (Star isSpace)
       (Seq (lit ''"'') (Seq (Cap 1 (Star (\<lambda>c. c \<noteq> ch CHR ''"''))) (lit ''"''))))))\<close>

definition reDirAttr :: rx where
  \<open>reDirAttr = Seq (lit ''dir'') (Seq (Star isSpace) (lit ''=''))\<close>

text \<open>The replacement callback of \<open>addLexicalClass\<close>, on the attributes of one tag:
  the value of \<open>newAttrs\<close> when the callback returns, and what it returns.\<close>

definition paragraphNewAttrs :: "jsstring \<Rightarrow> jsstring \<Rightarrow> jsstring" where
  \<open>paragraphNewAttrs dir existingAttrs =
     (let newAttrs =
            (if \<not> rtest reClassAttr existingAttrs
             then existingAttrs @ str '' class="LexicalTheme__paragraph"''
             else if \<not> rtest reTheme existingAttrs
             then replaceFirst reClassValue
                    (\<lambda>mt cs. str ''class="'' @ capOr cs 1 @ str '' LexicalTheme__paragraph"'')
                    existingAttrs
             else existingAttrs)
      in if \<not> rtest reDirAttr newAttrs then newAttrs @ str '' dir="'' @ dir @ str ''"''
         else newAttrs)\<close>

definition paragraphTag :: "jsstring \<Rightarrow> jsstring \<Rightarrow> jsstring" where
  "paragraphTag dir existingAttrs = str ''<p'' @ paragraphNewAttrs dir existingAttrs @ str ''>''"

definition addLexicalClass :: "jsstring \<Rightarrow> jsstring \<Rightarrow> jsstring" where
  "addLexicalClass html dir =
     replaceAll reParagraph (\<lambda>fullMatch cs. paragraphTag dir (capOr cs 1)) 0 None html"

text \<open>
  The label table. A label that names a member inherited from \<open>Object.prototype\<close>
  (\<open>constructor\<close>, \<open>toString\<close>, ...) is outside this model.
\<close>

definition LABEL_ENTITY_MAP :: "(jsstring \<times> jsstring) list" where
  "LABEL_ENTITY_MAP =
     [([1571], str ''&#x623;''), ([1576], str ''&#x628;''), ([1580], str ''&#x62C;''),
      ([1583], str ''&#x62F;''), ([1607, 1600], str ''&#x647;''), ([1607], str ''&#x647;''),
      ([1608], str ''&#x648;''), (str ''A'', str ''A''), (str ''B'', str ''B''),
      (str ''C'', str ''C''), (str ''D'', str ''D''), (str ''E'', str ''E''),
      (str ''F'', str ''F'')]"

definition getLabelEntity :: "jsstring \<Rightarrow> jsstring" where
  "getLabelEntity label = (case map_of LABEL_ENTITY_MAP label of Some e \<Rightarrow> e | None \<Rightarrow> label)"

text \<open>The pattern \<open>/<\s*p\b/i\<close>.\<close>

definition reHasParagraph :: rx where
  \<open>reHasParagraph = Seq (lit ''<'') (Seq (Star isSpace) (Seq (liti ''p'') WordB))\<close>

text \<open>\<open>wrapChoiceValue\<close> is called with whatever the choice holds: \<open>String(valueHtml ?? '')\<close>.\<close>

definition wrapChoiceValue :: "json \<Rightarrow> jsstring \<Rightarrow> jsstring" where
  \<open>wrapChoiceValue valueHtml dir =
     (let rawValue = trim (toStr (case valueHtml of JUndefined \<Rightarrow> JStr [] | JNull \<Rightarrow> JStr [] | v \<Rightarrow> v));
          valueWithLexicalClass = trim (addLexicalClass rawValue dir);
          normalizedValue =
            (if rtest reHasParagraph valueWithLexicalClass then valueWithLexicalClass
             else str ''<p class="LexicalTheme__paragraph" dir="'' @ dir @ str ''">'' @
                  valueWithLexicalClass @ str ''</p>'')
      in str ''<div class="choice-value" dir="'' @ dir @ str ''">'' @ normalizedValue @ str ''</div>'')\<close>

definition renderChoiceItem :: "jsstring \<Rightarrow> jsstring \<Rightarrow> json \<Rightarrow> jsstring \<Rightarrow> jsstring" where
  \<open>renderChoiceItem label labelClass valueHtml dir =
     str ''                <li class="">\<newline>                    <span class="'' @ labelClass @
     str ''">\<newline>                        '' @ label @
     str ''\<newline>                    </span>\<newline>                    '' @
     wrapChoiceValue valueHtml dir @ str ''\<newline>                </li>''\<close>

section \<open>Renderers per question type\<close>

definition renderStringAnswer :: "QuestionPart \<Rightarrow> jsstring \<Rightarrow> jsstring" where
  \<open>renderStringAnswer part dir =
     (let answer = (case acceptable_answers part of Some (a # _) \<Rightarrow> a | _ \<Rightarrow> [])
      in str ''\<newline>        <ul class="mcq_choices">\<newline>'' @
         renderChoiceItem (str ''&#x623;'') (str ''answered correct'') (JStr answer) dir @
         str ''\<newline>        </ul>\<newline>'')\<close>

definition renderMCQAnswer :: "QuestionPart \<Rightarrow> jsstring \<Rightarrow> jsstring" where
  \<open>renderMCQAnswer part dir =
     (case choices part of
        None \<Rightarrow> []
      | Some [] \<Rightarrow> []
      | Some cs \<Rightarrow>
          (let items = join (str ''\<newline>'') (map (\<lambda>choice.
                 let entity = getLabelEntity (choice_label choice);
                     cls = (if is_correct choice = Some True then str ''not_active answered correct''
                            else str ''not_active'')
                 in renderChoiceItem entity cls (JStr (choice_value choice)) dir) cs)
           in str ''\<newline>    <ul class="mcq_choices">\<newline>'' @ items @ str ''\<newline>    </ul>\<newline>''))\<close>

definition renderMRQAnswer :: "QuestionPart \<Rightarrow> jsstring \<Rightarrow> jsstring" where
  "renderMRQAnswer part dir = renderMCQAnswer part dir"

definition renderFRQAnswer :: "QuestionPart \<Rightarrow> jsstring \<Rightarrow> jsstring" where
  \<open>renderFRQAnswer part dir =
     (let answers = (case acceptable_answers part of None \<Rightarrow> [] | Some as \<Rightarrow> as)
      in case answers of
           [] \<Rightarrow> []
         | a # _ \<Rightarrow>
             (let answerHTML = addLexicalClass a dir
              in str ''\<newline>        <div class="frq-answer">\<newline>                <div class="answered correct">'' @
                 answerHTML @ str ''</div>\<newline>        </div>\<newline>''))\<close>

definition renderInputAnswer :: "QuestionPart \<Rightarrow> jsstring" where
  \<open>renderInputAnswer part =
     (let ca = correct_answer part
      in if \<not> truthy ca then []
         else (let v = (case getProp ca (str ''value'') of Inr x \<Rightarrow> x | Inl e \<Rightarrow> JUndefined);
                   val = (if v \<noteq> JUndefined then toStr v else []);
                   u = (case getProp ca (str ''unit'') of Inr x \<Rightarrow> x | Inl e \<Rightarrow> JUndefined);
                   unit = (if truthy u then u else JStr [])
               in str ''\<newline>        <div class="input-answer">\<newline>                <span class="answered correct">'' @
                  val @ (if truthy unit then str '' '' @ toStr unit else []) @
                  str ''</span>\<newline>        </div>\<newline>''))\<close>

definition renderGapAnswer :: "QuestionPart \<Rightarrow> jsstring \<Rightarrow> jsstring" where
  \<open>renderGapAnswer part dir =
     (case gap_keys part of
        None \<Rightarrow> []
      | Some [] \<Rightarrow> []
      | Some ks \<Rightarrow>
          (let sorted = sort_key correct_order ks;
               items = join (str ''\<newline>'') (map (\<lambda>(index, gapKey).
                  renderChoiceItem (showNat (index + 1)) (str ''answered correct'')
                    (JStr (gap_value gapKey)) dir) (enumerate 0 sorted))
           in str ''\<newline>        <ul class="mcq_choices">\<newline>'' @ items @
              str ''\<newline>        </ul>\<newline>''))\<close>

definition renderOrderingAnswer :: "QuestionPart \<Rightarrow> jsstring \<Rightarrow> jsstring" where
  \<open>renderOrderingAnswer part dir =
     (case correct_answer part of
        JArr ca \<Rightarrow>
          (let items = join (str ''\<newline>'') (map (\<lambda>(index, v).
                  renderChoiceItem (showNat (index + 1)) (str ''answered correct'') v dir)
                  (enumerate 0 ca))
           in str ''\<newline>        <ol class="mcq_choices">\<newline>'' @ items @
              str ''\<newline>        </ol>\<newline>'')
      | _ \<Rightarrow> [])\<close>

definition renderMatchingAnswer :: "QuestionPart \<Rightarrow> error + jsstring" where
  \<open>renderMatchingAnswer part =
     (case correct_answer part of
        JArr pairs \<Rightarrow>
          (case mapE (\<lambda>pair.
                  case getProp pair (str ''A'') of
                    Inl e \<Rightarrow> Inl e
                  | Inr a \<Rightarrow>
                      (case getProp pair (str ''B'') of
                         Inl e \<Rightarrow> Inl e
                       | Inr b \<Rightarrow>
                           Inr (str ''            <tr>\<newline>                <td>'' @ toStr a @
                                str ''</td>\<newline>                <td>'' @ [8596] @
                                str ''</td>\<newline>                <td>'' @ toStr b @
                                str ''</td>\<newline>            </tr>''))) pairs of
             Inl e \<Rightarrow> Inl e
           | Inr rows \<Rightarrow>
               Inr (str ''\<newline>        <table class="matching-answer">\<newline>'' @
                    join (str ''\<newline>'') rows @ str ''\<newline>        </table>\<newline>''))
      | _ \<Rightarrow> Inr [])\<close>

text \<open>\<open>renderGroup\<close> of \<open>renderGMRQAnswer\<close>: \<open>group.map\<close> is a TypeError unless the group is
  an array.\<close>

definition renderGroup :: "jsstring \<Rightarrow> json \<Rightarrow> error + jsstring" where
  \<open>renderGroup dir g =
     (case g of
        JArr cs \<Rightarrow>
          (case mapE (\<lambda>choice.
                  case getProp choice (str ''is_correct'') of
                    Inl e \<Rightarrow> Inl e
                  | Inr c \<Rightarrow>
                      (let cls = (if truthy c then str ''not_active answered correct''
                                  else str ''not_active'')
                       in case getProp choice (str ''label'') of
                            Inl e \<Rightarrow> Inl e
                          | Inr l \<Rightarrow>
                              (case getProp choice (str ''value'') of
                                 Inl e \<Rightarrow> Inl e
                               | Inr v \<Rightarrow> Inr (renderChoiceItem (getLabelEntity (toStr l)) cls v dir)))) cs of
             Inl e \<Rightarrow> Inl e
           | Inr rendered \<Rightarrow> Inr (join (str ''\<newline>'') rendered))
      | _ \<Rightarrow> Inl TypeError)\<close>

definition renderGMRQAnswer :: "QuestionPart \<Rightarrow> jsstring \<Rightarrow> error + jsstring" where
  \<open>renderGMRQAnswer part dir =
     (let items = part_items part
      in if \<not> truthy items then Inr []
         else (case getProp items (str ''A'') of
                 Inl e \<Rightarrow> Inl e
               | Inr a \<Rightarrow>
                   (case renderGroup dir a of
                      Inl e \<Rightarrow> Inl e
                    | Inr groupA \<Rightarrow>
                        (case getProp items (str ''B'') of
                           Inl e \<Rightarrow> Inl e
                         | Inr b \<Rightarrow>
                             (case renderGroup dir b of
                                Inl e \<Rightarrow> Inl e
                              | Inr groupB \<Rightarrow>
                                  Inr (str ''\<newline>        <div class="gmrq-group">\<newline>            <strong>Group A:</strong>\<newline>            <ul class="mcq_choices">\<newline>'' @
                                       groupA @
                                       str ''\<newline>            </ul>\<newline>            <strong>Group B:</strong>\<newline>            <ul class="mcq_choices">\<newline>'' @
                                       groupB @
                                       str ''\<newline>            </ul>\<newline>        </div>\<newline>''))))))\<close>

definition renderCountingAnswer :: "QuestionPart \<Rightarrow> jsstring" where
  \<open>renderCountingAnswer part =
     (let ca = correct_answer part
      in str ''\<newline>        <div class="input-answer">\<newline>                <span class="answered correct">'' @
         toStr ca @ str ''</span>\<newline>        </div>\<newline>'')\<close>

definition renderOpinionAnswer :: "QuestionPart \<Rightarrow> jsstring \<Rightarrow> jsstring" where
  \<open>renderOpinionAnswer part dir =
     (case choices part of
        None \<Rightarrow> []
      | Some [] \<Rightarrow> []
      | Some cs \<Rightarrow>
          (let items = join (str ''\<newline>'') (map (\<lambda>choice.
                 renderChoiceItem (getLabelEntity (choice_label choice)) (str ''not_active'')
                   (JStr (choice_value choice)) dir) cs)
           in str ''\<newline>    <ul class="mcq_choices">\<newline>'' @ items @ str ''\<newline>    </ul>\<newline>''))\<close>

definition renderPuzzleAnswer :: "QuestionPart \<Rightarrow> jsstring" where
  \<open>renderPuzzleAnswer part =
     (let ca = correct_answer part
      in if \<not> truthy ca then []
         else (let src = (case getProp ca (str ''src'') of Inr x \<Rightarrow> x | Inl e \<Rightarrow> JUndefined);
                   alt = (case getProp ca (str ''alt'') of Inr x \<Rightarrow> x | Inl e \<Rightarrow> JUndefined)
               in str ''\<newline>        <div class="puzzle-answer">\<newline>            <img src="'' @ toStr src @
                  str ''" alt="'' @ toStr (if truthy alt then alt else JStr (str ''Puzzle answer'')) @
                  str ''" style="max-width: 300px;" />\<newline>        </div>\<newline>''))\<close>

section \<open>Main renderer\<close>

definition renderAnswers :: "QuestionPart \<Rightarrow> jsstring \<Rightarrow> error + jsstring" where
  \<open>renderAnswers part dir =
     (let t = part_type part
      in if t = str ''string'' then Inr (renderStringAnswer part dir)
         else if t = str ''mcq'' then Inr (renderMCQAnswer part dir)
         else if t = str ''mrq'' then Inr (renderMRQAnswer part dir)
         else if t = str ''frq'' then Inr (renderFRQAnswer part dir)
         else if t = str ''input'' then Inr (renderInputAnswer part)
         else if t = str ''gap'' then Inr (renderGapAnswer part dir)
         else if t = str ''ordering'' then Inr (renderOrderingAnswer part dir)
         else if t = str ''matching'' then renderMatchingAnswer part
         else if t = str ''gmrq'' then renderGMRQAnswer part dir
         else if t = str ''counting'' then Inr (renderCountingAnswer part)
         else if t = str ''opinion'' then Inr (renderOpinionAnswer part dir)
         else if t = str ''puzzle'' then Inr (renderPuzzleAnswer part)
         else Inr (str ''<p style="color:#999;">Unsupported type: '' @ t @ str ''</p>''))\<close>

text \<open>The patterns of \<open>rewriteImagePaths\<close>:
  \<open>/(<img[^>]*\ssrc\s*=\s*")([^"]*\.(?:svg|png|jpg|jpeg|gif|webp))(")/gi\<close> and
  \<open>/^https?:\/\//\<close>.\<close>

definition reImageExt :: rx where
  "reImageExt =
     Alt (liti ''svg'') (Alt (liti ''png'') (Alt (liti ''jpg'') (Alt (liti ''jpeg'')
       (Alt (liti ''gif'') (liti ''webp'')))))"

text \<open>The part \<open>\ssrc\s*=\s*"\<close> of the pattern.\<close>

definition reSrcAttr :: rx where
  \<open>reSrcAttr =
     Seq (Chr isSpace) (Seq (liti ''src'') (Seq (Star isSpace) (Seq (lit ''='')
       (Seq (Star isSpace) (lit ''"'')))))\<close>

definition reImgSrc :: rx where
  \<open>reImgSrc =
     Seq (Cap 1 (Seq (liti ''<img'') (Seq (Star (\<lambda>c. c \<noteq> ch CHR ''>'')) reSrcAttr)))
       (Seq (Cap 2 (Seq (Star (\<lambda>c. c \<noteq> ch CHR ''"'')) (Seq (lit ''.'') reImageExt)))
         (Cap 3 (lit ''"'')))\<close>



section \<open>The image URL resolver\<close>

definition S3_BASE :: jsstring where
  "S3_BASE = str ''/api/questions''"

text \<open>The pattern \<open>/^\/+/\<close>.\<close>

definition reLeadingSlashes :: rx where
  "reLeadingSlashes = Seq Bol (Plus (\<lambda>c. c = ch CHR ''/''))"

definition resolveImageUrl :: "jsstring \<Rightarrow> jsstring option" where
  "resolveImageUrl imgPath =
     (let normalizedPath = replaceFirst reLeadingSlashes (\<lambda>mt cs. []) imgPath;
          parts = split (ch CHR ''/'') normalizedPath
      in if length parts < 3 \<or> parts ! 0 \<noteq> str ''images'' then None
         else let questionId = parts ! 1;
                  filename = join (str ''/'') (drop 2 parts)
              in if questionId = [] \<or> filename = [] then None
                 else Some (S3_BASE @ str ''/'' @ questionId @ str ''/'' @ filename))"

section \<open>Question blocks\<close>


section \<open>The bounded concurrent mapper\<close>

text \<open>
  \<open>mapWithConcurrency\<close> starts its workers and awaits them all. Between two \<open>await\<close>s a
  worker runs alone, so a run is a sequence of worker steps: a worker at the head of
  its loop either takes the next index (and calls the mapper, which suspends it) or
  leaves the loop; a suspended worker resumes when its mapper call settles, and stores
  the result at the index it took, or throws if the call rejected. Which worker moves
  next is not determined by the program: it is the schedule, the list of the workers
  in the order they move. The mapper is the value its call settles with, \<open>Inr\<close> when it
  resolves and \<open>Inl\<close> when it rejects. \<open>limit\<close> is an integer.
\<close>

datatype worker = Ready | Awaiting nat | Finished

record ('e, 'r) pool =
  nextIndex :: nat
  results :: "'r option list"
  workers :: "worker list"
  rejected :: "'e option"

definition workerStep ::
  "'a list \<Rightarrow> ('a \<Rightarrow> nat \<Rightarrow> 'e + 'r) \<Rightarrow> nat \<Rightarrow> ('e, 'r) pool \<Rightarrow> ('e, 'r) pool option" where
  "workerStep items mapper w s =
     (if w < length (workers s)
      then (case workers s ! w of
              Ready \<Rightarrow>
                (if nextIndex s < length items
                 then Some (s\<lparr>nextIndex := nextIndex s + 1,
                              workers := (workers s)[w := Awaiting (nextIndex s)]\<rparr>)
                 else Some (s\<lparr>workers := (workers s)[w := Finished]\<rparr>))
            | Awaiting i \<Rightarrow>
                (case mapper (items ! i) i of
                   Inr v \<Rightarrow> Some (s\<lparr>results := (results s)[i := Some v],
                                     workers := (workers s)[w := Ready]\<rparr>)
                 | Inl e \<Rightarrow> Some (s\<lparr>workers := (workers s)[w := Finished],
                                     rejected := (case rejected s of None \<Rightarrow> Some e | Some e' \<Rightarrow> Some e')\<rparr>))
            | Finished \<Rightarrow> None)
      else None)"

fun run ::
  "'a list \<Rightarrow> ('a \<Rightarrow> nat \<Rightarrow> 'e + 'r) \<Rightarrow> nat list \<Rightarrow> ('e, 'r) pool \<Rightarrow> ('e, 'r) pool option" where
  "run items mapper [] s = Some s"
| "run items mapper (w # ws) s =
     (case workerStep items mapper w s of None \<Rightarrow> None | Some s' \<Rightarrow> run items mapper ws s')"




section \<open>The export\<close>










text \<open>The code unit before the position reached after reading \<open>u\<close>.\<close>

definition prevAfter :: "nat option \<Rightarrow> jsstring \<Rightarrow> nat option" where
  "prevAfter p u = (if u = [] then p else Some (last u))"

text \<open>
  The captures of every match of a pattern with the \<open>g\<close> flag, in order: the loop
  \<open>while ((m = regex.exec(html)) !== null)\<close>, and the matches \<open>replace\<close> visits.
\<close>

fun matchAll :: "rx \<Rightarrow> nat \<Rightarrow> nat option \<Rightarrow> jsstring \<Rightarrow> caps list" where
  "matchAll r k p [] =
     (if k = 0
      then (case rmatch r (Map.empty, p, []) accept of Some (cs, s') \<Rightarrow> [cs] | None \<Rightarrow> [])
      else [])"
| "matchAll r k p (c # t) =
     (if 0 < k then matchAll r (k - 1) (Some c) t
      else (case rmatch r (Map.empty, p, c # t) accept of
              Some (cs, s') \<Rightarrow>
                (let n = length (c # t) - length s'
                 in cs # (if n = 0 then matchAll r 0 (Some c) t
                          else matchAll r (n - 1) (Some c) t))
            | None \<Rightarrow> matchAll r 0 (Some c) t))"

text \<open>The attributes of the paragraph tags that \<open>addLexicalClass\<close> rewrites.\<close>

definition paragraphAttrs :: "jsstring \<Rightarrow> jsstring list" where
  "paragraphAttrs html = map (\<lambda>cs. capOr cs 1) (matchAll reParagraph 0 None html)"

text \<open>
  A paragraph tag at the start of a string, in closed form: \<open><p\<close>, then the text up to
  the first \<open>>\<close>, which is empty or starts with whitespace. The result is that text (the
  attributes) and what follows the \<open>>\<close>.
\<close>

definition paraAt :: "jsstring \<Rightarrow> (jsstring \<times> jsstring) option" where
  "paraAt s =
     (if take 2 s = str ''<p''
      then (let t = drop 2 s;
                a = takeWhile (\<lambda>c. c \<noteq> ch CHR ''>'') t;
                r = dropWhile (\<lambda>c. c \<noteq> ch CHR ''>'') t
            in if r = [] then None
               else if a = [] \<or> isSpace (hd a) then Some (a, tl r)
               else None)
      else None)"

text \<open>
  The attributes on which a second pass differs from the first: a class attribute
  without the theming class, no direction attribute, and a class value that the
  class-appending pattern finds only once the direction attribute has been appended,
  because its opening double quote is not closed.
\<close>

definition danglingClass :: "jsstring \<Rightarrow> jsstring \<Rightarrow> bool" where
  \<open>danglingClass dir a =
     (rtest reClassAttr a \<and> \<not> rtest reTheme a \<and> \<not> rtest reDirAttr a
      \<and> \<not> rtest reClassValue a
      \<and> rtest reClassValue (a @ str '' dir="'' @ dir @ str ''"''))\<close>

section \<open>Documents of image tags\<close>












section \<open>Properties of the matcher\<close>

lemma star_accept: "rmatch (Star P) (cs, p, s) accept = Some (cs, dropWhile P s)"
  by (induction s arbitrary: p) (simp_all add: accept_def)

lemma rexec_Bol_Some: "rexec (Seq Bol r) (Some x) s = None"
  by (induction s arbitrary: x) simp_all

section \<open>Properties of the string helpers\<close>

lemma split_nonempty: "split sep s \<noteq> []"
  by (induction s) (auto split: list.splits)

lemma join_split: "join [sep] (split sep s) = s"
proof (induction s)
  case Nil
  show ?case by simp
next
  case (Cons c t)
  obtain x xs where sp: "split sep t = x # xs"
    using split_nonempty[of sep t] by (cases "split sep t") auto
  show ?case using Cons sp by (cases xs) auto
qed

lemma split_no_sep: "sep \<notin> set q \<Longrightarrow> split sep (q @ sep # r) = q # split sep r"
  by (induction q) auto


section \<open>The image URL resolver: null results and normalisation\<close>

lemma strip_leading:
  "replaceFirst reLeadingSlashes (\<lambda>mt cs. []) s = dropWhile (\<lambda>c. c = ch CHR ''/'') s"
proof (cases s)
  case Nil
  then show ?thesis by (simp add: replaceFirst_def reLeadingSlashes_def Plus_def)
next
  case (Cons c t)
  then show ?thesis
    by (simp add: replaceFirst_def reLeadingSlashes_def Plus_def star_accept rexec_Bol_Some)
qed

lemma resolve_canonical:
  assumes "q \<noteq> []" "ch CHR ''/'' \<notin> set q" "f \<noteq> []"
  shows "resolveImageUrl (str ''images/'' @ q @ str ''/'' @ f) =
         Some (S3_BASE @ str ''/'' @ q @ str ''/'' @ f)"
proof -
  have 1: "dropWhile (\<lambda>c. c = ch CHR ''/'') (str ''images/'' @ q @ str ''/'' @ f) =
           str ''images/'' @ q @ str ''/'' @ f"
    by (simp add: str_def)
  have 2: "split (ch CHR ''/'') (str ''images/'' @ q @ str ''/'' @ f) =
           str ''images'' # q # split (ch CHR ''/'') f"
    using split_no_sep[of "ch CHR ''/''" "str ''images''" "q @ str ''/'' @ f"]
      split_no_sep[of "ch CHR ''/''" q f] assms(2)
    by (simp add: str_def)
  have 3: "join (str ''/'') (split (ch CHR ''/'') f) = f"
    using join_split[of "ch CHR ''/''" f] by (simp add: str_def)
  show ?thesis
    unfolding resolveImageUrl_def strip_leading Let_def 1 2
    using assms 3 split_nonempty[of "ch CHR ''/''" f] by simp
qed

lemma resolve_leading_slashes:
  "resolveImageUrl (replicate k (ch CHR ''/'') @ p) = resolveImageUrl p"
proof -
  have "dropWhile (\<lambda>c. c = ch CHR ''/'') (replicate k (ch CHR ''/'') @ p) =
        dropWhile (\<lambda>c. c = ch CHR ''/'') p"
    by (induction k) simp_all
  then show ?thesis by (simp add: resolveImageUrl_def strip_leading)
qed



text \<open>
  C10. Leading \<open>/\<close> characters are stripped before parsing, so \<open>/images/Q1/foo.svg\<close>
  resolves to the URL of \<open>images/Q1/foo.svg\<close>; and everything after the question id is
  the file name, further \<open>/\<close> included, so \<open>images/Q1/a/b.svg\<close> resolves with the file
  name \<open>a/b.svg\<close>.
\<close>

theorem resolveImageUrl_normalizes:
  "resolveImageUrl (replicate k (ch CHR ''/'') @ p) = resolveImageUrl p
   \<and> resolveImageUrl (str ''/images/Q1/foo.svg'') = resolveImageUrl (str ''images/Q1/foo.svg'')
   \<and> resolveImageUrl (str ''images/Q1/foo.svg'') \<noteq> None
   \<and> (q \<noteq> [] \<and> ch CHR ''/'' \<notin> set q \<and> f \<noteq> [] \<longrightarrow>
        resolveImageUrl (str ''images/'' @ q @ str ''/'' @ f) =
        Some (S3_BASE @ str ''/'' @ q @ str ''/'' @ f))
   \<and> resolveImageUrl (str ''images/Q1/a/b.svg'') = Some (S3_BASE @ str ''/Q1/'' @ str ''a/b.svg'')"
proof -
  have a: "resolveImageUrl (str ''/images/Q1/foo.svg'') = resolveImageUrl (str ''images/Q1/foo.svg'')"
    using resolve_leading_slashes[of 1 "str ''images/Q1/foo.svg''"] by (simp add: str_def)
  have b: "resolveImageUrl (str ''images/Q1/foo.svg'') \<noteq> None"
    by (simp add: resolveImageUrl_def strip_leading str_def)
  have c: "resolveImageUrl (str ''images/Q1/a/b.svg'') = Some (S3_BASE @ str ''/Q1/'' @ str ''a/b.svg'')"
    by (simp add: resolveImageUrl_def strip_leading str_def)
  have d: "q \<noteq> [] \<and> ch CHR ''/'' \<notin> set q \<and> f \<noteq> [] \<longrightarrow>
        resolveImageUrl (str ''images/'' @ q @ str ''/'' @ f) =
        Some (S3_BASE @ str ''/'' @ q @ str ''/'' @ f)"
    using resolve_canonical[of q f] by simp
  show ?thesis
    by (intro conjI) (rule resolve_leading_slashes, rule a, rule b, rule d, rule c)
qed

theorem resolveImageUrl_normalizes_witness:
  "str ''Q1'' \<noteq> [] \<and> ch CHR ''/'' \<notin> set (str ''Q1'') \<and> str ''a/b.svg'' \<noteq> []
   \<and> resolveImageUrl (str ''images/'' @ str ''Q1'' @ str ''/'' @ str ''a/b.svg'') =
       Some (S3_BASE @ str ''/'' @ str ''Q1'' @ str ''/'' @ str ''a/b.svg'')
   \<and> resolveImageUrl (replicate 2 (ch CHR ''/'') @ str ''images/Q1/foo.svg'') =
       resolveImageUrl (str ''images/Q1/foo.svg'')"
  using resolveImageUrl_normalizes[of 2 "str ''images/Q1/foo.svg''" "str ''Q1''" "str ''a/b.svg''"]
  by (simp add: str_def)

section \<open>The answer renderers\<close>

text \<open>
  C9. A part of type \<open>mrq\<close> renders to exactly the fragment of the same part with type
  \<open>mcq\<close>: the multi-choice renderer is the single-choice renderer.
\<close>

theorem mrq_renders_as_mcq:
  "renderAnswers (part\<lparr>part_type := str ''mrq''\<rparr>) dir =
     renderAnswers (part\<lparr>part_type := str ''mcq''\<rparr>) dir
   \<and> renderMRQAnswer part dir = renderMCQAnswer part dir
   \<and> renderAnswers (part\<lparr>part_type := str ''mrq''\<rparr>) dir = Inr (renderMCQAnswer part dir)"
  by (simp add: renderAnswers_def renderMRQAnswer_def renderMCQAnswer_def str_def)


lemma opinion_items:
  "map choice_label cs = map choice_label cs' \<Longrightarrow> map choice_value cs = map choice_value cs' \<Longrightarrow>
   map (\<lambda>c. renderChoiceItem (getLabelEntity (choice_label c)) cls (JStr (choice_value c)) dir) cs =
   map (\<lambda>c. renderChoiceItem (getLabelEntity (choice_label c)) cls (JStr (choice_value c)) dir) cs'"
proof (induction cs arbitrary: cs')
  case Nil
  then show ?case by simp
next
  case (Cons c cs)
  then obtain d ds where cs': "cs' = d # ds" by (cases cs') auto
  with Cons.prems have "choice_label c = choice_label d" "choice_value c = choice_value d"
    "map choice_label cs = map choice_label ds" "map choice_value cs = map choice_value ds"
    by simp_all
  then show ?case using Cons.IH[of ds] cs' by simp
qed

lemma renderOpinionAnswer_shape:
  "choices p = Some cs \<Longrightarrow> renderOpinionAnswer p dir =
        (if cs = [] then []
         else str ''\<newline>    <ul class=\"mcq_choices\">\<newline>'' @
              join (str ''\<newline>'')
                (map (\<lambda>c. renderChoiceItem (getLabelEntity (choice_label c)) (str ''not_active'')
                             (JStr (choice_value c)) dir) cs) @
              str ''\<newline>    </ul>\<newline>'')"
  by (cases cs) (simp_all add: renderOpinionAnswer_def)

lemma renderAnswers_opinion:
  "part_type p = str ''opinion'' \<Longrightarrow> renderAnswers p dir = Inr (renderOpinionAnswer p dir)"
  by (simp add: renderAnswers_def str_def)

text \<open>
  C8. The fragment of an opinion part does not depend on the \<open>is_correct\<close> flags of its
  choices: two opinion parts whose choices carry the same labels and values, in the same
  order, render to the same fragment, whatever their flags; and every choice is rendered
  with the one class \<open>not_active\<close>.
\<close>

theorem opinion_ignores_is_correct:
  assumes "part_type p = str ''opinion''" and "part_type q = str ''opinion''"
    and "choices p = Some cs" and "choices q = Some cs'"
    and "map choice_label cs = map choice_label cs'"
    and "map choice_value cs = map choice_value cs'"
  shows "renderAnswers p dir = renderAnswers q dir
     \<and> renderAnswers p dir =
         Inr (if cs = [] then []
              else str ''\<newline>    <ul class=\"mcq_choices\">\<newline>'' @
                   join (str ''\<newline>'')
                     (map (\<lambda>c. renderChoiceItem (getLabelEntity (choice_label c)) (str ''not_active'')
                                  (JStr (choice_value c)) dir) cs) @
                   str ''\<newline>    </ul>\<newline>'')"
proof -
  have empty: "cs = [] \<longleftrightarrow> cs' = []"
    using assms(5) by (cases cs; cases cs') simp_all
  have "renderOpinionAnswer p dir = renderOpinionAnswer q dir"
    unfolding renderOpinionAnswer_shape[OF assms(3)] renderOpinionAnswer_shape[OF assms(4)]
      opinion_items[OF assms(5,6)] empty ..
  then have same: "renderAnswers p dir = renderAnswers q dir"
    unfolding renderAnswers_opinion[OF assms(1)] renderAnswers_opinion[OF assms(2)] by (rule arg_cong)
  have shape: "renderAnswers p dir = Inr (renderOpinionAnswer p dir)"
    by (rule renderAnswers_opinion[OF assms(1)])
  show ?thesis
    using same shape unfolding renderOpinionAnswer_shape[OF assms(3)] by (rule conjI)
qed

theorem opinion_ignores_is_correct_witness:
  "renderAnswers
     \<lparr>part_n = 1, part_type = str ''opinion'', stem = [],
      choices = Some [\<lparr>choice_label = str ''A'', choice_value = str ''yes'', is_correct = Some True\<rparr>,
                      \<lparr>choice_label = str ''B'', choice_value = str ''no'', is_correct = Some False\<rparr>],
      correct_answer = JUndefined, acceptable_answers = None, gap_keys = None,
      part_items = JUndefined\<rparr> (str ''ltr'') =
   renderAnswers
     \<lparr>part_n = 1, part_type = str ''opinion'', stem = [],
      choices = Some [\<lparr>choice_label = str ''A'', choice_value = str ''yes'', is_correct = None\<rparr>,
                      \<lparr>choice_label = str ''B'', choice_value = str ''no'', is_correct = None\<rparr>],
      correct_answer = JUndefined, acceptable_answers = None, gap_keys = None,
      part_items = JUndefined\<rparr> (str ''ltr'')"
proof -
  let ?cs = "[\<lparr>choice_label = str ''A'', choice_value = str ''yes'', is_correct = Some True\<rparr>,
              \<lparr>choice_label = str ''B'', choice_value = str ''no'', is_correct = Some False\<rparr>]"
  let ?cs' = "[\<lparr>choice_label = str ''A'', choice_value = str ''yes'', is_correct = None\<rparr>,
               \<lparr>choice_label = str ''B'', choice_value = str ''no'', is_correct = None\<rparr>]"
  let ?p = "\<lparr>part_n = 1, part_type = str ''opinion'', stem = [], choices = Some ?cs,
      correct_answer = JUndefined, acceptable_answers = None, gap_keys = None,
      part_items = JUndefined\<rparr>"
  let ?q = "\<lparr>part_n = 1, part_type = str ''opinion'', stem = [], choices = Some ?cs',
      correct_answer = JUndefined, acceptable_answers = None, gap_keys = None,
      part_items = JUndefined\<rparr>"
  have "renderAnswers ?p (str ''ltr'') = renderAnswers ?q (str ''ltr'')"
    by (rule opinion_ignores_is_correct[of ?p ?q ?cs ?cs' "str ''ltr''", THEN conjunct1]) simp_all
  then show ?thesis .
qed

text \<open>
  C3. A part of type \<open>gmrq\<close> whose \<open>items\<close> is an object without the groups \<open>A\<close> and \<open>B\<close>
  (here the empty object) makes the renderer raise a TypeError: \<open>items\<close> is truthy, so
  the guard lets it through, and \<open>items.A.map\<close> reads \<open>map\<close> of \<open>undefined\<close>.
\<close>

theorem renderAnswers_gmrq_raises:
  "renderAnswers (part\<lparr>part_type := str ''gmrq'', part_items := JObj []\<rparr>) dir = Inl TypeError"
  by (simp add: renderAnswers_def renderGMRQAnswer_def renderGroup_def str_def)



















lemma run_append:
  "run items mapper (xs @ ys) s =
     (case run items mapper xs s of None \<Rightarrow> None | Some s' \<Rightarrow> run items mapper ys s')"
  by (induction xs arbitrary: s) (auto split: option.splits)














lemma prevAfter_Nil [simp]: "prevAfter p [] = p"
  by (simp add: prevAfter_def)

lemma prevAfter_Cons [simp]: "prevAfter p (c # u) = prevAfter (Some c) u"
  by (simp add: prevAfter_def)

lemma prevAfter_append [simp]: "prevAfter p (u @ v) = prevAfter (prevAfter p u) v"
  by (simp add: prevAfter_def)

lemma lit_Nil: "lit [] = Eps"
  by (simp add: lit_def)

lemma lit_Cons: "lit (c # w) = Seq (Chr (\<lambda>x. x = ch c)) (lit w)"
  by (simp add: lit_def)


lemma liti_Cons: "liti (c # w) = Seq (Chr (\<lambda>x. canon x = canon (ch c))) (liti w)"
  by (simp add: liti_def)

lemma rmatch_lit:
  "rmatch (lit w) (cs, p, s) k =
     (if take (length w) s = map ch w
      then k (cs, prevAfter p (map ch w), drop (length w) s) else None)"
proof (induction w arbitrary: p s)
  case Nil
  then show ?case by (simp add: lit_Nil)
next
  case (Cons c w)
  show ?case
  proof (cases s)
    case Nil
    then show ?thesis by (simp add: lit_Cons)
  next
    case (Cons x s')
    then show ?thesis using Cons.IH[of "Some x" s'] by (auto simp: lit_Cons)
  qed
qed


lemma star_longest:
  assumes "\<forall>c \<in> set u. P c" and "v = [] \<or> \<not> P (hd v)"
    and "k (cs, prevAfter p u, v) = Some r"
  shows "rmatch (Star P) (cs, p, u @ v) k = Some r"
  using assms
proof (induction u arbitrary: p)
  case Nil
  then show ?case by (cases v) auto
next
  case (Cons c u)
  then show ?case by simp
qed

lemma star_disjoint:
  assumes "\<And>c cs' p' s'. P c \<Longrightarrow> k (cs', p', c # s') = None"
  shows "rmatch (Star P) (cs, p, s) k = k (cs, prevAfter p (takeWhile P s), dropWhile P s)"
proof (induction s arbitrary: p)
  case Nil
  then show ?case by simp
next
  case (Cons c s)
  then show ?case using assms by (auto split: option.splits)
qed

lemma star_none:
  assumes "\<And>j. j \<le> length (takeWhile P s) \<Longrightarrow> k (cs, prevAfter p (take j s), drop j s) = None"
  shows "rmatch (Star P) (cs, p, s) k = None"
  using assms
proof (induction s arbitrary: p)
  case Nil
  then show ?case by simp
next
  case (Cons c s)
  show ?case
  proof (cases "P c")
    case True
    have "rmatch (Star P) (cs, Some c, s) k = None"
    proof (rule Cons.IH)
      fix j assume "j \<le> length (takeWhile P s)"
      then show "k (cs, prevAfter (Some c) (take j s), drop j s) = None"
        using Cons.prems[of "Suc j"] True by simp
    qed
    moreover have "k (cs, p, c # s) = None" using Cons.prems[of 0] by simp
    ultimately show ?thesis using True by simp
  next
    case False
    then show ?thesis using Cons.prems[of 0] by simp
  qed
qed


lemma rexec_here:
  "rmatch r (Map.empty, p, s) accept = Some (cs, s') \<Longrightarrow>
   rexec r p s = Some ([], take (length s - length s') s, cs, s')"
  by (cases s) simp_all

lemma rexec_iff:
  "rexec r p s \<noteq> None \<longleftrightarrow>
     (\<exists>u v. s = u @ v \<and> rmatch r (Map.empty, prevAfter p u, v) accept \<noteq> None)"
proof (induction s arbitrary: p)
  case Nil
  then show ?case by (auto split: option.splits)
next
  case (Cons c t)
  show ?case
  proof (cases "rmatch r (Map.empty, p, c # t) accept")
    case (Some a)
    then have "rexec r p (c # t) \<noteq> None" by (cases a) simp
    moreover have "c # t = [] @ (c # t) \<and> rmatch r (Map.empty, prevAfter p [], c # t) accept \<noteq> None"
      using Some by simp
    ultimately show ?thesis by blast
  next
    case None
    then have "rexec r p (c # t) \<noteq> None \<longleftrightarrow> rexec r (Some c) t \<noteq> None" by simp
    also have "\<dots> \<longleftrightarrow> (\<exists>u v. t = u @ v \<and> rmatch r (Map.empty, prevAfter (Some c) u, v) accept \<noteq> None)"
      by (rule Cons.IH)
    also have "\<dots> \<longleftrightarrow> (\<exists>u v. c # t = u @ v \<and> rmatch r (Map.empty, prevAfter p u, v) accept \<noteq> None)"
    proof
      assume "\<exists>u v. t = u @ v \<and> rmatch r (Map.empty, prevAfter (Some c) u, v) accept \<noteq> None"
      then obtain u v where "t = u @ v" "rmatch r (Map.empty, prevAfter (Some c) u, v) accept \<noteq> None"
        by blast
      then have "c # t = (c # u) @ v \<and> rmatch r (Map.empty, prevAfter p (c # u), v) accept \<noteq> None"
        by simp
      then show "\<exists>u v. c # t = u @ v \<and> rmatch r (Map.empty, prevAfter p u, v) accept \<noteq> None"
        by blast
    next
      assume "\<exists>u v. c # t = u @ v \<and> rmatch r (Map.empty, prevAfter p u, v) accept \<noteq> None"
      then obtain u v where uv: "c # t = u @ v" "rmatch r (Map.empty, prevAfter p u, v) accept \<noteq> None"
        by blast
      show "\<exists>u v. t = u @ v \<and> rmatch r (Map.empty, prevAfter (Some c) u, v) accept \<noteq> None"
      proof (cases u)
        case Nil
        with uv None show ?thesis by simp
      next
        case (Cons x u')
        with uv have "t = u' @ v \<and> rmatch r (Map.empty, prevAfter (Some c) u', v) accept \<noteq> None"
          by simp
        then show ?thesis by blast
      qed
    qed
    finally show ?thesis .
  qed
qed

lemma rtest_iff:
  "rtest r s \<longleftrightarrow> (\<exists>u v. s = u @ v \<and> rmatch r (Map.empty, prevAfter None u, v) accept \<noteq> None)"
  unfolding rtest_def by (rule rexec_iff)

lemma rexec_first:
  assumes "\<And>u' v'. u = u' @ v' \<Longrightarrow> v' \<noteq> [] \<Longrightarrow>
             rmatch r (Map.empty, prevAfter p u', v' @ v) accept = None"
    and "rmatch r (Map.empty, prevAfter p u, v) accept = Some (cs, rest)"
  shows "rexec r p (u @ v) = Some (u, take (length v - length rest) v, cs, rest)"
  using assms
proof (induction u arbitrary: p)
  case Nil
  then show ?case using rexec_here[of r p v cs rest] by simp
next
  case (Cons c u)
  have none: "rmatch r (Map.empty, p, c # u @ v) accept = None"
    using Cons.prems(1)[of "[]" "c # u"] by simp
  have "rexec r (Some c) (u @ v) = Some (u, take (length v - length rest) v, cs, rest)"
  proof (rule Cons.IH)
    fix u' v' assume "u = u' @ v'" "v' \<noteq> []"
    then show "rmatch r (Map.empty, prevAfter (Some c) u', v' @ v) accept = None"
      using Cons.prems(1)[of "c # u'" v'] by simp
  next
    show "rmatch r (Map.empty, prevAfter (Some c) u, v) accept = Some (cs, rest)"
      using Cons.prems(2) by simp
  qed
  with none show ?case by simp
qed

lemma rexec_Some_shape:
  assumes "rexec r p s = Some (pre, m, cs, rest)"
  shows "\<exists>v. s = pre @ v \<and> rmatch r (Map.empty, prevAfter p pre, v) accept = Some (cs, rest)
             \<and> m = take (length v - length rest) v
             \<and> (\<forall>u' v'. pre = u' @ v' \<and> v' \<noteq> [] \<longrightarrow>
                   rmatch r (Map.empty, prevAfter p u', v' @ v) accept = None)"
  using assms
proof (induction s arbitrary: p pre)
  case Nil
  then show ?case by (auto split: option.splits)
next
  case (Cons c t)
  show ?case
  proof (cases "rmatch r (Map.empty, p, c # t) accept")
    case (Some a)
    obtain cs' s' where a: "a = (cs', s')" by (cases a)
    with Some Cons.prems have "pre = []" "m = take (length (c # t) - length s') (c # t)"
      "cs = cs'" "rest = s'" by auto
    with Some a show ?thesis by simp
  next
    case None
    with Cons.prems obtain pre' where r: "rexec r (Some c) t = Some (pre', m, cs, rest)"
      and pre: "pre = c # pre'"
      by (auto split: prod.splits)
    from Cons.IH[OF r] obtain v where v: "t = pre' @ v"
      "rmatch r (Map.empty, prevAfter (Some c) pre', v) accept = Some (cs, rest)"
      "m = take (length v - length rest) v"
      "\<forall>u' v'. pre' = u' @ v' \<and> v' \<noteq> [] \<longrightarrow>
                   rmatch r (Map.empty, prevAfter (Some c) u', v' @ v) accept = None"
      by blast
    have "\<forall>u' v'. pre = u' @ v' \<and> v' \<noteq> [] \<longrightarrow>
                   rmatch r (Map.empty, prevAfter p u', v' @ v) accept = None"
    proof (intro allI impI)
      fix u' v' assume h: "pre = u' @ v' \<and> v' \<noteq> []"
      show "rmatch r (Map.empty, prevAfter p u', v' @ v) accept = None"
      proof (cases u')
        case Nil
        with h pre v(1) None show ?thesis by auto
      next
        case (Cons x u'')
        with h pre have "pre' = u'' @ v'" "x = c" by simp_all
        with v(4) h Cons show ?thesis by simp
      qed
    qed
    with v pre show ?thesis by simp
  qed
qed

lemma replaceAll_skip:
  "n \<le> length s \<Longrightarrow>
   replaceAll r f n p s = replaceAll r f 0 (prevAfter p (take n s)) (drop n s)"
proof (induction s arbitrary: n p)
  case Nil
  then show ?case by simp
next
  case (Cons c t)
  show ?case
  proof (cases n)
    case 0
    then show ?thesis by simp
  next
    case (Suc n')
    then show ?thesis using Cons.IH[of n' "Some c"] Cons.prems by simp
  qed
qed

lemma replaceAll_match:
  assumes "rmatch r (Map.empty, p, m @ s') accept = Some (cs, s')" and "m \<noteq> []"
  shows "replaceAll r f 0 p (m @ s') = f m cs @ replaceAll r f 0 (Some (last m)) s'"
proof -
  obtain c m' where m: "m = c # m'" using assms(2) by (cases m) auto
  have "replaceAll r f (length m') (Some c) (m' @ s') =
        replaceAll r f 0 (prevAfter (Some c) m') s'"
    using replaceAll_skip[of "length m'" "m' @ s'" r f "Some c"] by simp
  moreover have "prevAfter (Some c) m' = Some (last m)"
    unfolding m by (simp add: prevAfter_def)
  ultimately show ?thesis using assms(1) unfolding m by (simp add: Let_def)
qed

lemma replaceAll_prefix:
  assumes "\<And>u' v'. u = u' @ v' \<Longrightarrow> v' \<noteq> [] \<Longrightarrow>
             rmatch r (Map.empty, prevAfter p u', v' @ s) accept = None"
  shows "replaceAll r f 0 p (u @ s) = u @ replaceAll r f 0 (prevAfter p u) s"
  using assms
proof (induction u arbitrary: p)
  case Nil
  then show ?case by simp
next
  case (Cons c u)
  have none: "rmatch r (Map.empty, p, c # u @ s) accept = None"
    using Cons.prems[of "[]" "c # u"] by simp
  have "replaceAll r f 0 (Some c) (u @ s) = u @ replaceAll r f 0 (prevAfter (Some c) u) s"
  proof (rule Cons.IH)
    fix u' v' assume "u = u' @ v'" "v' \<noteq> []"
    then show "rmatch r (Map.empty, prevAfter (Some c) u', v' @ s) accept = None"
      using Cons.prems[of "c # u'" v'] by simp
  qed
  with none show ?case by simp
qed

lemma matchAll_skip:
  "n \<le> length s \<Longrightarrow> matchAll r n p s = matchAll r 0 (prevAfter p (take n s)) (drop n s)"
proof (induction s arbitrary: n p)
  case Nil
  then show ?case by simp
next
  case (Cons c t)
  show ?case
  proof (cases n)
    case 0
    then show ?thesis by simp
  next
    case (Suc n')
    then show ?thesis using Cons.IH[of n' "Some c"] Cons.prems by simp
  qed
qed

lemma matchAll_match:
  assumes "rmatch r (Map.empty, p, m @ s') accept = Some (cs, s')" and "m \<noteq> []"
  shows "matchAll r 0 p (m @ s') = cs # matchAll r 0 (Some (last m)) s'"
proof -
  obtain c m' where m: "m = c # m'" using assms(2) by (cases m) auto
  have "matchAll r (length m') (Some c) (m' @ s') = matchAll r 0 (prevAfter (Some c) m') s'"
    using matchAll_skip[of "length m'" "m' @ s'" r "Some c"] by simp
  moreover have "prevAfter (Some c) m' = Some (last m)"
    unfolding m by (simp add: prevAfter_def)
  ultimately show ?thesis using assms(1) unfolding m by (simp add: Let_def)
qed

lemma matchAll_prefix:
  assumes "\<And>u' v'. u = u' @ v' \<Longrightarrow> v' \<noteq> [] \<Longrightarrow>
             rmatch r (Map.empty, prevAfter p u', v' @ s) accept = None"
  shows "matchAll r 0 p (u @ s) = matchAll r 0 (prevAfter p u) s"
  using assms
proof (induction u arbitrary: p)
  case Nil
  then show ?case by simp
next
  case (Cons c u)
  have none: "rmatch r (Map.empty, p, c # u @ s) accept = None"
    using Cons.prems[of "[]" "c # u"] by simp
  have "matchAll r 0 (Some c) (u @ s) = matchAll r 0 (prevAfter (Some c) u) s"
  proof (rule Cons.IH)
    fix u' v' assume "u = u' @ v'" "v' \<noteq> []"
    then show "rmatch r (Map.empty, prevAfter (Some c) u', v' @ s) accept = None"
      using Cons.prems[of "c # u'" v'] by simp
  qed
  with none show ?case by simp
qed

lemma isSpace_simps [simp]:
  "\<not> isSpace 62" "\<not> isSpace 60" "\<not> isSpace 61" "\<not> isSpace 34" "isSpace 32" "\<not> isSpace 112"
  "\<not> isSpace 99" "\<not> isSpace 100"
  by (simp_all add: isSpace_def)

lemma ch_gt: "ch CHR ''>'' = 62"
  by simp

lemma rmatch_lit1 [simp]:
  "rmatch (lit [c]) (cs, p, []) k = None"
  "rmatch (lit [c]) (cs, p, x # s) k = (if x = ch c then k (cs, Some x, s) else None)"
  by (simp_all add: lit_Cons lit_Nil)

lemma rmatch_lit_n:
  assumes "length w = n" and "map ch w = x" and "w \<noteq> []"
  shows "rmatch (lit w) (cs, p, s) k =
     (if take n s = x then k (cs, Some (last x), drop n s) else None)"
  using assms rmatch_lit[of w cs p s k] by (auto simp: prevAfter_def)

lemma rmatch_lit_p:
  "rmatch (lit ''<p'') (cs, p, s) k =
     (if take 2 s = [60, 112] then k (cs, Some 112, drop 2 s) else None)"
  using rmatch_lit_n[of "''<p''" 2 "[60, 112]" cs p s k] by simp

lemma rmatch_lit_class:
  "rmatch (lit ''class'') (cs, p, s) k =
     (if take 5 s = [99, 108, 97, 115, 115] then k (cs, Some 115, drop 5 s) else None)"
  using rmatch_lit_n[of "''class''" 5 "[99, 108, 97, 115, 115]" cs p s k] by simp

lemma rmatch_lit_dir:
  "rmatch (lit ''dir'') (cs, p, s) k =
     (if take 3 s = [100, 105, 114] then k (cs, Some 114, drop 3 s) else None)"
  using rmatch_lit_n[of "''dir''" 3 "[100, 105, 114]" cs p s k] by simp

lemma para_tail_none:
  assumes "62 \<notin> set t"
  shows "rmatch (Seq (Star isSpace) (lit ''>'')) (cs, p, t) k = None"
proof -
  have "rmatch (Star isSpace) (cs, p, t) (\<lambda>st'. rmatch (lit ''>'') st' k) = None"
  proof (rule star_none)
    fix j
    have "62 \<notin> set (drop j t)" using assms by (meson in_set_dropD)
    then show "rmatch (lit ''>'') (cs, prevAfter p (take j t), drop j t) k = None"
      by (cases "drop j t") auto
  qed
  then show ?thesis by simp
qed

lemma para_tail_gt:
  "rmatch (Seq (Star isSpace) (lit ''>'')) (cs, p, 62 # rest) accept = Some (cs, rest)"
  by (simp add: accept_def)

lemma para_match:
  "rmatch reParagraph (cs, p, s) accept =
     (case paraAt s of
        None \<Rightarrow> None
      | Some (a, rest) \<Rightarrow> Some (if a = [] then cs else cs(1 \<mapsto> a), rest))"
proof (cases "take 2 s = str ''<p''")
  case False
  then show ?thesis by (simp add: reParagraph_def rmatch_lit_p paraAt_def str_def)
next
  case True
  define t where "t = drop 2 s"
  define a where "a = takeWhile (\<lambda>c. c \<noteq> 62) t"
  define r where "r = dropWhile (\<lambda>c. c \<noteq> 62) t"
  have t: "t = a @ r" by (simp add: a_def r_def)
  have a62: "62 \<notin> set a" unfolding a_def by (auto dest: set_takeWhileD)
  let ?k0 = "\<lambda>st'. rmatch (Seq (Star isSpace) (lit ''>'')) st' accept"
  let ?X = "Cap 1 (Seq (Chr isSpace) (Star (\<lambda>c. c \<noteq> 62)))"
  have start: "rmatch reParagraph (cs, p, s) accept =
        (case rmatch ?X (cs, Some 112, t) ?k0 of
           Some x \<Rightarrow> Some x | None \<Rightarrow> ?k0 (cs, Some 112, t))"
    using True by (simp add: reParagraph_def rmatch_lit_p t_def str_def cong: option.case_cong)
  have pa: "paraAt s = (if r = [] then None
               else if a = [] \<or> isSpace (hd a) then Some (a, tl r) else None)"
    using True unfolding paraAt_def Let_def t_def a_def r_def ch_gt
    by (simp only: simp_thms if_True)
  show ?thesis
  proof (cases "r = []")
    case True
    then have no: "62 \<notin> set t" using t a62 by simp
    have k0: "?k0 (cs, Some 112, t) = None" by (rule para_tail_none[OF no])
    have "rmatch ?X (cs, Some 112, t) ?k0 = None"
    proof (cases t)
      case Nil
      then show ?thesis by simp
    next
      case (Cons c t')
      show ?thesis
      proof (cases "isSpace c")
        case False
        then show ?thesis using Cons by simp
      next
        case True
        have "rmatch (Star (\<lambda>c. c \<noteq> 62)) (cs, Some c, t')
               (\<lambda>(cs', p', s'). ?k0 (cs'(1 \<mapsto> take (length (c # t') - length s') (c # t')), p', s')) = None"
        proof (rule star_none)
          fix j
          have "62 \<notin> set (drop j t')" using no Cons by (auto dest: in_set_dropD)
          then show "(case (cs, prevAfter (Some c) (take j t'), drop j t') of
                  (cs', p', s') \<Rightarrow> ?k0 (cs'(1 \<mapsto> take (length (c # t') - length s') (c # t')), p', s')) = None"
            using para_tail_none by simp
        qed
        then show ?thesis using Cons True by simp
      qed
    qed
    with k0 start pa True show ?thesis by simp
  next
    case False
    then obtain rest where r: "r = 62 # rest"
      unfolding r_def by (metis (mono_tags, lifting) dropWhile_eq_Nil_conv hd_dropWhile list.collapse)
    show ?thesis
    proof (cases a)
      case Nil
      then have "t = 62 # rest" using t r by simp
      then show ?thesis using start pa r Nil by (simp add: accept_def)
    next
      case (Cons c a')
      have tt: "t = c # a' @ 62 # rest" using t r Cons by simp
      show ?thesis
      proof (cases "isSpace c")
        case False
        have "c \<noteq> 62" using a62 Cons by auto
        then show ?thesis using start pa r Cons False tt by simp
      next
        case True
        have "rmatch (Star (\<lambda>c. c \<noteq> 62)) (cs, Some c, a' @ 62 # rest)
               (\<lambda>(cs', p', s'). ?k0 (cs'(1 \<mapsto> take (length (c # a' @ 62 # rest) - length s') (c # a' @ 62 # rest)), p', s'))
              = Some (cs(1 \<mapsto> c # a'), rest)"
        proof (rule star_longest)
          show "\<forall>x \<in> set a'. x \<noteq> 62" using a62 Cons by auto
          show "62 # rest = [] \<or> \<not> hd (62 # rest) \<noteq> 62" by simp
          show "(case (cs, prevAfter (Some c) a', 62 # rest) of
                  (cs', p', s') \<Rightarrow> ?k0 (cs'(1 \<mapsto> take (length (c # a' @ 62 # rest) - length s') (c # a' @ 62 # rest)), p', s'))
                = Some (cs(1 \<mapsto> c # a'), rest)"
            by (simp add: accept_def)
        qed
        then show ?thesis using start pa r Cons True tt by simp
      qed
    qed
  qed
qed

lemma paraAt_Some_iff:
  "paraAt s = Some (a, rest) \<longleftrightarrow>
     s = str ''<p'' @ a @ 62 # rest \<and> 62 \<notin> set a \<and> (a = [] \<or> isSpace (hd a))"
proof
  assume h: "paraAt s = Some (a, rest)"
  then have t2: "take 2 s = str ''<p''" by (simp add: paraAt_def split: if_splits)
  define t where "t = drop 2 s"
  have s: "s = str ''<p'' @ t" using t2 unfolding t_def by (metis append_take_drop_id)
  from h t2 have r: "dropWhile (\<lambda>c. c \<noteq> 62) t \<noteq> []"
    and a: "a = takeWhile (\<lambda>c. c \<noteq> 62) t" and rest: "rest = tl (dropWhile (\<lambda>c. c \<noteq> 62) t)"
    and sp: "a = [] \<or> isSpace (hd a)"
    by (auto simp: paraAt_def Let_def t_def split: if_splits)
  from r have "hd (dropWhile (\<lambda>c. c \<noteq> 62) t) = 62" using hd_dropWhile[of "\<lambda>c. c \<noteq> 62" t] by simp
  with r rest have "dropWhile (\<lambda>c. c \<noteq> 62) t = 62 # rest" by (metis list.collapse)
  then have "t = a @ 62 # rest" using a by (metis takeWhile_dropWhile_id)
  moreover have "62 \<notin> set a" unfolding a by (auto dest: set_takeWhileD)
  ultimately show "s = str ''<p'' @ a @ 62 # rest \<and> 62 \<notin> set a \<and> (a = [] \<or> isSpace (hd a))"
    using s sp by simp
next
  assume h: "s = str ''<p'' @ a @ 62 # rest \<and> 62 \<notin> set a \<and> (a = [] \<or> isSpace (hd a))"
  then have na: "\<And>x. x \<in> set a \<Longrightarrow> x \<noteq> 62" by auto
  have tw: "takeWhile (\<lambda>c. c \<noteq> 62) (a @ 62 # rest) = a"
    using takeWhile_append2[of a "\<lambda>c. c \<noteq> 62" "62 # rest"] na by simp
  have dw: "dropWhile (\<lambda>c. c \<noteq> 62) (a @ 62 # rest) = 62 # rest"
    using dropWhile_append2[of a "\<lambda>c. c \<noteq> 62" "62 # rest"] na by simp
  from h show "paraAt s = Some (a, rest)"
    by (simp add: paraAt_def str_def tw dw)
qed

lemma rtest_intro:
  "rmatch r (Map.empty, prevAfter None u, v) accept \<noteq> None \<Longrightarrow> rtest r (u @ v)"
  unfolding rtest_iff by blast

lemma rtest_extend:
  assumes ext: "\<And>p p' v. rmatch r (Map.empty, p, v) accept \<noteq> None \<Longrightarrow>
                 rmatch r (Map.empty, p', v @ z) accept \<noteq> None"
    and "rtest r a"
  shows "rtest r (x @ a @ z)"
proof -
  from assms(2) obtain u v where a: "a = u @ v"
    and m: "rmatch r (Map.empty, prevAfter None u, v) accept \<noteq> None"
    unfolding rtest_iff by blast
  have "rmatch r (Map.empty, prevAfter None (x @ u), v @ z) accept \<noteq> None"
    by (rule ext[OF m])
  then have "rtest r ((x @ u) @ (v @ z))" by (rule rtest_intro)
  then show ?thesis using a by simp
qed

text \<open>The patterns \<open>name\s*=\<close>.\<close>

lemma attr_at:
  "rmatch (Seq (lit w) (Seq (Star isSpace) (lit ''=''))) (cs, p, v) accept \<noteq> None \<longleftrightarrow>
     take (length w) v = map ch w \<and> (\<exists>t. dropWhile isSpace (drop (length w) v) = 61 # t)"
proof -
  have d: "\<And>cs p s. rmatch (Star isSpace) (cs, p, s) (\<lambda>st'. rmatch (lit ''='') st' accept) =
        rmatch (lit ''='') (cs, prevAfter p (takeWhile isSpace s), dropWhile isSpace s) accept"
    by (rule star_disjoint) auto
  define t where "t = dropWhile isSpace (drop (length w) v)"
  have "rmatch (Seq (lit w) (Seq (Star isSpace) (lit ''=''))) (cs, p, v) accept =
        (if take (length w) v = map ch w
         then rmatch (lit ''='') (cs, prevAfter (prevAfter p (map ch w))
                 (takeWhile isSpace (drop (length w) v)), t) accept
         else None)"
    by (simp add: rmatch_lit[of w] d t_def)
  then show ?thesis unfolding t_def[symmetric] by (cases t) (auto simp: accept_def)
qed

lemma attr_extend:
  assumes "rmatch (Seq (lit w) (Seq (Star isSpace) (lit ''=''))) (cs, p, v) accept \<noteq> None"
  shows "rmatch (Seq (lit w) (Seq (Star isSpace) (lit ''=''))) (cs', p', v @ z) accept \<noteq> None"
proof -
  from assms obtain t where w: "take (length w) v = map ch w"
    and t: "dropWhile isSpace (drop (length w) v) = 61 # t"
    unfolding attr_at by blast
  from w have len: "length w \<le> length v"
    by (metis length_map length_take min.cobounded2 min_def nat_le_linear take_all)
  from t obtain y where y: "y \<in> set (drop (length w) v)" "\<not> isSpace y"
    by (metis dropWhile_eq_Nil_conv list.distinct(1))
  have "dropWhile isSpace (drop (length w) v @ z) = dropWhile isSpace (drop (length w) v) @ z"
    using y by (meson dropWhile_append1)
  then have "dropWhile isSpace (drop (length w) (v @ z)) = 61 # (t @ z)"
    using len t by simp
  moreover have "take (length w) (v @ z) = map ch w" using len w by simp
  ultimately show ?thesis unfolding attr_at by blast
qed

lemma rtest_attr_extend:
  "rtest (Seq (lit w) (Seq (Star isSpace) (lit ''=''))) a \<Longrightarrow>
   rtest (Seq (lit w) (Seq (Star isSpace) (lit ''=''))) (x @ a @ z)"
  by (rule rtest_extend[where a = a]) (rule attr_extend)

lemma rtest_attr_here:
  "rtest (Seq (lit w) (Seq (Star isSpace) (lit ''=''))) (x @ map ch w @ 61 # z)"
proof -
  have "rmatch (Seq (lit w) (Seq (Star isSpace) (lit ''=''))) (Map.empty, prevAfter None x, map ch w @ 61 # z) accept \<noteq> None"
    unfolding attr_at by simp
  then show ?thesis by (rule rtest_intro)
qed

lemma rtest_class_extend: "rtest reClassAttr a \<Longrightarrow> rtest reClassAttr (x @ a @ z)"
  unfolding reClassAttr_def by (rule rtest_attr_extend)

lemma rtest_dir_extend: "rtest reDirAttr a \<Longrightarrow> rtest reDirAttr (x @ a @ z)"
  unfolding reDirAttr_def by (rule rtest_attr_extend)

lemma rtest_class_here: "rtest reClassAttr (x @ str ''class='' @ z)"
  using rtest_attr_here[of "''class''" x z] by (simp add: reClassAttr_def str_def)

lemma rtest_dir_here: "rtest reDirAttr (x @ str ''dir='' @ z)"
  using rtest_attr_here[of "''dir''" x z] by (simp add: reDirAttr_def str_def)

lemma rtest_class_nonempty: "rtest reClassAttr a \<Longrightarrow> a \<noteq> []"
  unfolding rtest_iff reClassAttr_def attr_at by auto

text \<open>The literal pattern of the theming class.\<close>

lemma lit_at: "rmatch (lit w) (cs, p, v) accept \<noteq> None \<longleftrightarrow> take (length w) v = map ch w"
  by (simp add: rmatch_lit accept_def)

lemma rtest_lit_iff: "rtest (lit w) a \<longleftrightarrow> (\<exists>u v. a = u @ map ch w @ v)"
proof
  assume "rtest (lit w) a"
  then obtain u v where a: "a = u @ v" and t: "take (length w) v = map ch w"
    unfolding rtest_iff lit_at by blast
  have "v = map ch w @ drop (length w) v" using t by (metis append_take_drop_id)
  with a show "\<exists>u v. a = u @ map ch w @ v" by blast
next
  assume "\<exists>u v. a = u @ map ch w @ v"
  then obtain u v where a: "a = u @ map ch w @ v" by blast
  have "rmatch (lit w) (Map.empty, prevAfter None u, map ch w @ v) accept \<noteq> None"
    unfolding lit_at by simp
  then show "rtest (lit w) a" unfolding a by (rule rtest_intro)
qed

lemma rtest_theme_extend: "rtest reTheme a \<Longrightarrow> rtest reTheme (x @ a @ z)"
  unfolding reTheme_def rtest_lit_iff
  by (metis append.assoc)

lemma rtest_theme_here: "rtest reTheme (x @ str ''LexicalTheme__paragraph'' @ z)"
  unfolding reTheme_def rtest_lit_iff str_def by blast

lemma take_length_dropWhile:
  "take (length s - length (dropWhile P s)) s = takeWhile P s"
proof -
  have "length s = length (takeWhile P s) + length (dropWhile P s)"
    by (metis length_append takeWhile_dropWhile_id)
  then have "length s - length (dropWhile P s) = length (takeWhile P s)" by simp
  then show ?thesis by (simp add: takeWhile_eq_take[symmetric])
qed

lemma quoted_value:
  "rmatch (Star (\<lambda>c. c \<noteq> 34)) (cs, p, s)
     (\<lambda>(cs', p', s'). rmatch (lit ''\"'') (cs'(Suc 0 \<mapsto> take (length s - length s') s), p', s') accept) =
     (case dropWhile (\<lambda>c. c \<noteq> 34) s of
        [] \<Rightarrow> None
      | x # rest \<Rightarrow> Some (cs(Suc 0 \<mapsto> takeWhile (\<lambda>c. c \<noteq> 34) s), rest))"
proof -
  define dw where "dw = dropWhile (\<lambda>c. c \<noteq> 34) s"
  let ?k = "\<lambda>(cs', p', s'). rmatch (lit ''\"'') (cs'(Suc 0 \<mapsto> take (length s - length s') s), p', s') accept"
  have "rmatch (Star (\<lambda>c. c \<noteq> 34)) (cs, p, s) ?k =
        ?k (cs, prevAfter p (takeWhile (\<lambda>c. c \<noteq> 34) s), dropWhile (\<lambda>c. c \<noteq> 34) s)"
    by (rule star_disjoint) simp
  then have eq: "rmatch (Star (\<lambda>c. c \<noteq> 34)) (cs, p, s) ?k =
        rmatch (lit ''\"'') (cs(Suc 0 \<mapsto> takeWhile (\<lambda>c. c \<noteq> 34) s),
           prevAfter p (takeWhile (\<lambda>c. c \<noteq> 34) s), dw) accept"
    using take_length_dropWhile[of s "\<lambda>c. c \<noteq> 34"] by (simp add: dw_def)
  have hd: "dw \<noteq> [] \<Longrightarrow> hd dw = 34"
    unfolding dw_def using hd_dropWhile[of "\<lambda>c. c \<noteq> 34" s] by simp
  show ?thesis unfolding eq dw_def[symmetric] using hd by (cases dw) (auto simp: accept_def)
qed

lemma spaces_then_eq:
  "rmatch (Star isSpace) (cs, p, s) (\<lambda>st'. rmatch (lit ''='') st' k) =
     rmatch (lit ''='') (cs, prevAfter p (takeWhile isSpace s), dropWhile isSpace s) k"
  by (rule star_disjoint) auto

lemma spaces_then_quote:
  "rmatch (Star isSpace) (cs, p, s) (\<lambda>st'. rmatch (lit ''\"'') st' k) =
     rmatch (lit ''\"'') (cs, prevAfter p (takeWhile isSpace s), dropWhile isSpace s) k"
  by (rule star_disjoint) auto

lemma classValue_Some:
  assumes "rmatch reClassValue (cs, p, v) accept = Some (cs', rest)"
  shows "\<exists>ws1 ws2 c. v = str ''class'' @ ws1 @ 61 # ws2 @ 34 # c @ 34 # rest \<and> cs' = cs(1 \<mapsto> c)"
proof -
  let ?K4 = "\<lambda>st'. rmatch (Cap 1 (Star (\<lambda>c. c \<noteq> 34))) st' (\<lambda>st'. rmatch (lit ''\"'') st' accept)"
  let ?K2 = "\<lambda>st'. rmatch (Star isSpace) st' (\<lambda>st'. rmatch (lit ''\"'') st' ?K4)"
  from assms have t5: "take 5 v = [99, 108, 97, 115, 115]"
    by (simp add: reClassValue_def rmatch_lit_class split: if_splits)
  define t1 where "t1 = drop 5 v"
  define ws1 where "ws1 = takeWhile isSpace t1"
  define t2 where "t2 = dropWhile isSpace t1"
  have v: "v = [99, 108, 97, 115, 115] @ t1"
    using t5 unfolding t1_def by (metis append_take_drop_id)
  have t1: "t1 = ws1 @ t2" by (simp add: ws1_def t2_def)
  from assms t5 have 1: "rmatch (lit ''='') (cs, prevAfter (Some 115) ws1, t2) ?K2 = Some (cs', rest)"
    by (simp add: reClassValue_def rmatch_lit_class spaces_then_eq t1_def ws1_def t2_def)
  then obtain t3 where t2: "t2 = 61 # t3"
    by (cases t2) (auto split: if_splits)
  define ws2 where "ws2 = takeWhile isSpace t3"
  define t4 where "t4 = dropWhile isSpace t3"
  have t3: "t3 = ws2 @ t4" by (simp add: ws2_def t4_def)
  from 1 t2 have 2: "rmatch (lit ''\"'') (cs, prevAfter (Some 61) ws2, t4) ?K4 = Some (cs', rest)"
    by (simp add: spaces_then_quote ws2_def t4_def)
  then obtain t5 where t4: "t4 = 34 # t5"
    by (cases t4) (auto split: if_splits)
  define c where "c = takeWhile (\<lambda>c. c \<noteq> 34) t5"
  define dw where "dw = dropWhile (\<lambda>c. c \<noteq> 34) t5"
  have t5': "t5 = c @ dw" by (simp add: c_def dw_def)
  from 2 t4 have 4: "(case dw of [] \<Rightarrow> None | x # rest \<Rightarrow> Some (cs(Suc 0 \<mapsto> c), rest)) = Some (cs', rest)"
    unfolding c_def dw_def by (simp add: quoted_value)
  then obtain x where dw: "dw = x # rest" and cs': "cs' = cs(Suc 0 \<mapsto> c)"
    by (cases dw) auto
  have cs1: "cs' = cs(1 \<mapsto> c)" using cs' by simp
  have "hd dw = 34" using dw hd_dropWhile[of "\<lambda>c. c \<noteq> 34" t5] unfolding dw_def by force
  with dw have x: "x = 34" by simp
  have "v = str ''class'' @ ws1 @ 61 # ws2 @ 34 # c @ 34 # rest"
    unfolding v t1 t2 t3 t4 t5' dw x by (simp add: str_def)
  with cs1 show ?thesis by blast
qed


lemma replaceFirst_no_match:
  assumes "\<not> rtest r s"
  shows "replaceFirst r f s = s"
proof -
  from assms have h: "rexec r None s = None" unfolding rtest_def by blast
  show ?thesis unfolding replaceFirst_def h by simp
qed

lemma replaceFirst_classValue:
  "(replaceFirst reClassValue
       (\<lambda>mt cs. str ''class=\"'' @ capOr cs 1 @ str '' LexicalTheme__paragraph\"'') a = a
     \<and> \<not> rtest reClassValue a)
   \<or> (\<exists>pre ws1 ws2 c rest.
          a = pre @ str ''class'' @ ws1 @ 61 # ws2 @ 34 # c @ 34 # rest
        \<and> replaceFirst reClassValue
             (\<lambda>mt cs. str ''class=\"'' @ capOr cs 1 @ str '' LexicalTheme__paragraph\"'') a =
            pre @ str ''class=\"'' @ c @ str '' LexicalTheme__paragraph\"'' @ rest)"
proof (cases "rexec reClassValue None a")
  case None
  then show ?thesis by (simp add: replaceFirst_def rtest_def)
next
  case (Some x)
  obtain pre m cs rest where x: "x = (pre, m, cs, rest)" by (cases x)
  from rexec_Some_shape[OF Some[unfolded x]] obtain v where a: "a = pre @ v"
    and m: "rmatch reClassValue (Map.empty, prevAfter None pre, v) accept = Some (cs, rest)"
    by blast
  from classValue_Some[OF m] obtain ws1 ws2 c where
    v: "v = str ''class'' @ ws1 @ 61 # ws2 @ 34 # c @ 34 # rest" and cs: "cs = Map.empty(1 \<mapsto> c)"
    by blast
  have "replaceFirst reClassValue
             (\<lambda>mt cs. str ''class=\"'' @ capOr cs 1 @ str '' LexicalTheme__paragraph\"'') a =
            pre @ str ''class=\"'' @ c @ str '' LexicalTheme__paragraph\"'' @ rest"
    using Some x cs by (simp add: replaceFirst_def capOr_def)
  with a v show ?thesis by blast
qed

lemma rtest_class_cls: "rtest reClassAttr (x @ str '' class=\"LexicalTheme__paragraph\"'' @ z)"
  using rtest_class_here[of "x @ [32]" "str ''\"LexicalTheme__paragraph\"'' @ z"]
  by (simp add: str_def)

lemma rtest_theme_cls: "rtest reTheme (x @ str '' class=\"LexicalTheme__paragraph\"'' @ z)"
  using rtest_theme_here[of "x @ str '' class=\"''" "str ''\"'' @ z"]
  by (simp add: str_def)

lemma rtest_dir_dir: "rtest reDirAttr (x @ str '' dir=\"'' @ d @ str ''\"'' @ z)"
  using rtest_dir_here[of "x @ [32]" "34 # d @ str ''\"'' @ z"]
  by (simp add: str_def)

lemma newAttrs_fix:
  "rtest reClassAttr b \<Longrightarrow> rtest reTheme b \<Longrightarrow> rtest reDirAttr b \<Longrightarrow>
   paragraphNewAttrs d b = b"
  by (simp add: paragraphNewAttrs_def)

lemma newAttrs_dir_step:
  assumes "rtest reClassAttr na" and "rtest reTheme na"
  shows "paragraphNewAttrs d (if \<not> rtest reDirAttr na then na @ str '' dir=\"'' @ d @ str ''\"'' else na) =
         (if \<not> rtest reDirAttr na then na @ str '' dir=\"'' @ d @ str ''\"'' else na)"
proof (cases "rtest reDirAttr na")
  case True
  then show ?thesis using assms by (simp add: newAttrs_fix)
next
  case False
  have "rtest reClassAttr (na @ str '' dir=\"'' @ d @ str ''\"'')"
    using rtest_class_extend[OF assms(1), of "[]"] by simp
  moreover have "rtest reTheme (na @ str '' dir=\"'' @ d @ str ''\"'')"
    using rtest_theme_extend[OF assms(2), of "[]"] by simp
  moreover have "rtest reDirAttr (na @ str '' dir=\"'' @ d @ str ''\"'')"
    using rtest_dir_dir[of na d "[]"] by simp
  ultimately show ?thesis using False by (simp add: newAttrs_fix)
qed

lemma newAttrs_idem:
  assumes "\<not> danglingClass d a"
  shows "paragraphNewAttrs d (paragraphNewAttrs d a) = paragraphNewAttrs d a"
proof (cases "rtest reClassAttr a")
  case False
  let ?na = "a @ str '' class=\"LexicalTheme__paragraph\"''"
  have h: "paragraphNewAttrs d a =
        (if \<not> rtest reDirAttr ?na then ?na @ str '' dir=\"'' @ d @ str ''\"'' else ?na)"
    using False by (simp add: paragraphNewAttrs_def)
  have "rtest reClassAttr ?na" using rtest_class_cls[of a "[]"] by simp
  moreover have "rtest reTheme ?na" using rtest_theme_cls[of a "[]"] by simp
  ultimately show ?thesis unfolding h by (rule newAttrs_dir_step)
next
  case C: True
  show ?thesis
  proof (cases "rtest reTheme a")
    case True
    have h: "paragraphNewAttrs d a =
        (if \<not> rtest reDirAttr a then a @ str '' dir=\"'' @ d @ str ''\"'' else a)"
      using C True by (simp add: paragraphNewAttrs_def)
    show ?thesis unfolding h by (rule newAttrs_dir_step[OF C True])
  next
    case L: False
    let ?rf = "replaceFirst reClassValue
       (\<lambda>mt cs. str ''class=\"'' @ capOr cs 1 @ str '' LexicalTheme__paragraph\"'') a"
    have h: "paragraphNewAttrs d a =
        (if \<not> rtest reDirAttr ?rf then ?rf @ str '' dir=\"'' @ d @ str ''\"'' else ?rf)"
      using C L by (simp add: paragraphNewAttrs_def)
    from replaceFirst_classValue[of a] show ?thesis
    proof
      assume nv: "?rf = a \<and> \<not> rtest reClassValue a"
      show ?thesis
      proof (cases "rtest reDirAttr a")
        case True
        then have "paragraphNewAttrs d a = a" using h nv by simp
        then show ?thesis by simp
      next
        case D: False
        let ?b = "a @ str '' dir=\"'' @ d @ str ''\"''"
        have hb: "paragraphNewAttrs d a = ?b" using h nv D by simp
        have nvb: "\<not> rtest reClassValue ?b"
          using assms C L D nv by (simp add: danglingClass_def)
        then have rfb: "replaceFirst reClassValue
           (\<lambda>mt cs. str ''class=\"'' @ capOr cs 1 @ str '' LexicalTheme__paragraph\"'') ?b = ?b"
          by (rule replaceFirst_no_match)
        have Cb: "rtest reClassAttr ?b" using rtest_class_extend[OF C, of "[]"] by simp
        have Db: "rtest reDirAttr ?b" using rtest_dir_dir[of a d "[]"] by simp
        have "paragraphNewAttrs d ?b = ?b"
          using Cb Db rfb by (simp add: paragraphNewAttrs_def)
        then show ?thesis unfolding hb .
      qed
    next
      assume "\<exists>pre ws1 ws2 c rest.
          a = pre @ str ''class'' @ ws1 @ 61 # ws2 @ 34 # c @ 34 # rest
        \<and> ?rf = pre @ str ''class=\"'' @ c @ str '' LexicalTheme__paragraph\"'' @ rest"
      then obtain pre c rest where
        rf: "?rf = pre @ str ''class=\"'' @ c @ str '' LexicalTheme__paragraph\"'' @ rest"
        by blast
      have "rtest reClassAttr ?rf"
        unfolding rf using rtest_class_here[of pre "34 # c @ str '' LexicalTheme__paragraph\"'' @ rest"]
        by (simp add: str_def)
      moreover have "rtest reTheme ?rf"
        unfolding rf using rtest_theme_here[of "pre @ str ''class=\"'' @ c @ [32]" "34 # rest"]
        by (simp add: str_def)
      ultimately show ?thesis unfolding h by (rule newAttrs_dir_step)
    qed
  qed
qed

lemma dir_no_gt: "d = str ''ltr'' \<or> d = str ''rtl'' \<Longrightarrow> 62 \<notin> set d"
  by (auto simp: str_def)

lemma newAttrs_shape:
  assumes "a = [] \<or> isSpace (hd a)" and "62 \<notin> set a" and "d = str ''ltr'' \<or> d = str ''rtl''"
  shows "paragraphNewAttrs d a \<noteq> [] \<and> isSpace (hd (paragraphNewAttrs d a))
         \<and> 62 \<notin> set (paragraphNewAttrs d a)"
proof -
  define na where "na =
            (if \<not> rtest reClassAttr a
             then a @ str '' class=\"LexicalTheme__paragraph\"''
             else if \<not> rtest reTheme a
             then replaceFirst reClassValue
                    (\<lambda>mt cs. str ''class=\"'' @ capOr cs 1 @ str '' LexicalTheme__paragraph\"'') a
             else a)"
  have h: "paragraphNewAttrs d a =
      (if \<not> rtest reDirAttr na then na @ str '' dir=\"'' @ d @ str ''\"'' else na)"
    by (simp add: paragraphNewAttrs_def na_def)
  have na: "na \<noteq> [] \<and> isSpace (hd na) \<and> 62 \<notin> set na"
  proof (cases "rtest reClassAttr a")
    case False
    then have "na = a @ str '' class=\"LexicalTheme__paragraph\"''" by (simp add: na_def)
    then show ?thesis using assms(1,2) by (cases a) (auto simp: str_def)
  next
    case C: True
    then have ane: "a \<noteq> []" by (rule rtest_class_nonempty)
    with assms(1) have sp: "isSpace (hd a)" by simp
    show ?thesis
    proof (cases "rtest reTheme a")
      case True
      then have "na = a" using C by (simp add: na_def)
      then show ?thesis using ane sp assms(2) by simp
    next
      case False
      then have nrf: "na = replaceFirst reClassValue
                    (\<lambda>mt cs. str ''class=\"'' @ capOr cs 1 @ str '' LexicalTheme__paragraph\"'') a"
        using C by (simp add: na_def)
      from replaceFirst_classValue[of a] show ?thesis
      proof
        assume "replaceFirst reClassValue
                    (\<lambda>mt cs. str ''class=\"'' @ capOr cs 1 @ str '' LexicalTheme__paragraph\"'') a = a
                \<and> \<not> rtest reClassValue a"
        then have "na = a" using nrf by simp
        then show ?thesis using ane sp assms(2) by simp
      next
        assume "\<exists>pre ws1 ws2 c rest.
          a = pre @ str ''class'' @ ws1 @ 61 # ws2 @ 34 # c @ 34 # rest
        \<and> replaceFirst reClassValue
             (\<lambda>mt cs. str ''class=\"'' @ capOr cs 1 @ str '' LexicalTheme__paragraph\"'') a =
            pre @ str ''class=\"'' @ c @ str '' LexicalTheme__paragraph\"'' @ rest"
        then obtain pre ws1 ws2 c rest where
          a: "a = pre @ str ''class'' @ ws1 @ 61 # ws2 @ 34 # c @ 34 # rest"
          and r: "na = pre @ str ''class=\"'' @ c @ str '' LexicalTheme__paragraph\"'' @ rest"
          using nrf by auto
        have pre: "pre \<noteq> []"
        proof
          assume "pre = []"
          then have "hd a = 99" using a by (simp add: str_def)
          with sp show False by simp
        qed
        then have "hd na = hd a" using a r by simp
        moreover have "62 \<notin> set na" using assms(2) unfolding a r by (auto simp: str_def)
        ultimately show ?thesis using pre r sp by simp
      qed
    qed
  qed
  show ?thesis unfolding h using na dir_no_gt[OF assms(3)] by (auto simp: str_def)
qed

lemma paraAt_Nil [simp]: "paraAt [] = None"
  by (simp add: paraAt_def str_def)

lemma replaceAll_para_indep:
  "replaceAll reParagraph f k p s = replaceAll reParagraph f k p' s"
  by (induction s arbitrary: k p p') (simp_all add: para_match)

lemma matchAll_para_indep:
  "matchAll reParagraph k p s = matchAll reParagraph k p' s"
  by (induction s arbitrary: k p p') (simp_all add: para_match)

text \<open>Whether a paragraph tag starts before another one does not depend on the
  attributes of that other tag.\<close>

lemma paraAt_Cons2:
  "paraAt (x # y # w) =
     (if x = 60 \<and> y = 112
      then (if dropWhile (\<lambda>c. c \<noteq> 62) w = [] then None
            else if takeWhile (\<lambda>c. c \<noteq> 62) w = [] \<or> isSpace (hd (takeWhile (\<lambda>c. c \<noteq> 62) w))
            then Some (takeWhile (\<lambda>c. c \<noteq> 62) w, tl (dropWhile (\<lambda>c. c \<noteq> 62) w))
            else None)
      else None)"
  unfolding paraAt_def Let_def ch_gt by (auto simp: str_def)

lemma paraAt_context:
  assumes "v' \<noteq> []" and "62 \<notin> set a" and "62 \<notin> set a'"
    and "paraAt (v' @ str ''<p'' @ a @ 62 # rest) = None"
  shows "paraAt (v' @ str ''<p'' @ a' @ 62 # rest') = None"
proof (cases v')
  case Nil
  with assms(1) show ?thesis by simp
next
  case (Cons x v1)
  show ?thesis
  proof (cases v1)
    case Nil
    then show ?thesis using Cons by (simp add: paraAt_Cons2 str_def)
  next
    case (Cons y v2)
    note v' = \<open>v' = x # v1\<close> Cons
    have X: "\<And>b z. v' @ str ''<p'' @ b @ 62 # z = x # y # (v2 @ 60 # 112 # b @ 62 # z)"
      unfolding v' by (simp add: str_def)
    show ?thesis
    proof (cases "x = 60 \<and> y = 112")
      case False
      then show ?thesis unfolding X paraAt_Cons2 by simp
    next
      case xy: True
      show ?thesis
      proof (cases "62 \<in> set v2")
        case True
        then have tw: "\<And>z. takeWhile (\<lambda>c. c \<noteq> 62) (v2 @ z) = takeWhile (\<lambda>c. c \<noteq> 62) v2"
          and dw: "\<And>z. dropWhile (\<lambda>c. c \<noteq> 62) (v2 @ z) = dropWhile (\<lambda>c. c \<noteq> 62) v2 @ z"
          by (simp_all add: takeWhile_append1 dropWhile_append1)
        have ne: "dropWhile (\<lambda>c. c \<noteq> 62) v2 \<noteq> []" using True by (simp add: dropWhile_eq_Nil_conv)
        from assms(4) have "\<not> (takeWhile (\<lambda>c. c \<noteq> 62) v2 = []
                 \<or> isSpace (hd (takeWhile (\<lambda>c. c \<noteq> 62) v2)))"
          unfolding X paraAt_Cons2 tw dw using xy ne by (simp split: if_splits)
        then show ?thesis
          unfolding X paraAt_Cons2 tw dw using xy ne by simp
      next
        case False
        then have n2: "\<And>c. c \<in> set v2 \<Longrightarrow> c \<noteq> 62" by auto
        have tw: "\<And>b z. 62 \<notin> set b \<Longrightarrow>
            takeWhile (\<lambda>c. c \<noteq> 62) (v2 @ 60 # 112 # b @ 62 # z) = v2 @ 60 # 112 # b"
        proof -
          fix b :: "nat list" and z assume "62 \<notin> set b"
          then have "\<And>c. c \<in> set (v2 @ 60 # 112 # b) \<Longrightarrow> c \<noteq> 62" using n2 by auto
          then show "takeWhile (\<lambda>c. c \<noteq> 62) (v2 @ 60 # 112 # b @ 62 # z) = v2 @ 60 # 112 # b"
            using takeWhile_append2[of "v2 @ 60 # 112 # b" "\<lambda>c. c \<noteq> 62" "62 # z"] by simp
        qed
        have dw: "\<And>b z. 62 \<notin> set b \<Longrightarrow>
            dropWhile (\<lambda>c. c \<noteq> 62) (v2 @ 60 # 112 # b @ 62 # z) = 62 # z"
        proof -
          fix b :: "nat list" and z assume "62 \<notin> set b"
          then have "\<And>c. c \<in> set (v2 @ 60 # 112 # b) \<Longrightarrow> c \<noteq> 62" using n2 by auto
          then show "dropWhile (\<lambda>c. c \<noteq> 62) (v2 @ 60 # 112 # b @ 62 # z) = 62 # z"
            using dropWhile_append2[of "v2 @ 60 # 112 # b" "\<lambda>c. c \<noteq> 62" "62 # z"] by simp
        qed
        have hd: "\<And>b. hd (v2 @ 60 # 112 # b) = hd (v2 @ [60])" by (cases v2) simp_all
        from assms(4) have "\<not> isSpace (hd (v2 @ [60]))"
          unfolding X paraAt_Cons2 tw[OF assms(2)] dw[OF assms(2)] hd using xy
          by (simp split: if_splits)
        then show ?thesis
          unfolding X paraAt_Cons2 tw[OF assms(3)] dw[OF assms(3)] hd using xy by simp
      qed
    qed
  qed
qed

lemma paragraph_step:
  assumes s: "s = pre @ str ''<p'' @ a @ 62 # rest"
    and a: "62 \<notin> set a" "a = [] \<or> isSpace (hd a)"
    and first: "\<And>u' v'. pre = u' @ v' \<Longrightarrow> v' \<noteq> [] \<Longrightarrow>
                  paraAt (v' @ str ''<p'' @ a @ 62 # rest) = None"
  shows "addLexicalClass s d = pre @ paragraphTag d a @ addLexicalClass rest d"
    and "paragraphAttrs s = a # paragraphAttrs rest"
proof -
  let ?g = "\<lambda>fullMatch cs. paragraphTag d (capOr cs 1)"
  let ?m = "str ''<p'' @ a @ [62]"
  let ?cs = "if a = [] then Map.empty else [1 \<mapsto> a]"
  have pa: "paraAt (?m @ rest) = Some (a, rest)"
    using a by (simp add: paraAt_Some_iff)
  have m: "\<And>p. rmatch reParagraph (Map.empty, p, ?m @ rest) accept = Some (?cs, rest)"
    by (simp only: para_match pa) simp
  have none: "\<And>p u' v'. pre = u' @ v' \<Longrightarrow> v' \<noteq> [] \<Longrightarrow>
       rmatch reParagraph (Map.empty, prevAfter p u', v' @ ?m @ rest) accept = None"
    using first by (simp add: para_match)
  have cap: "capOr ?cs 1 = a" by (simp add: capOr_def)
  have mne: "?m \<noteq> []" by (simp add: str_def)
  have "replaceAll reParagraph ?g 0 None (pre @ ?m @ rest) =
        pre @ replaceAll reParagraph ?g 0 (prevAfter None pre) (?m @ rest)"
    by (rule replaceAll_prefix) (rule none)
  also have "replaceAll reParagraph ?g 0 (prevAfter None pre) (?m @ rest) =
        ?g ?m ?cs @ replaceAll reParagraph ?g 0 (Some (last ?m)) rest"
    by (rule replaceAll_match[OF m mne])
  also have "replaceAll reParagraph ?g 0 (Some (last ?m)) rest = replaceAll reParagraph ?g 0 None rest"
    by (rule replaceAll_para_indep)
  finally show "addLexicalClass s d = pre @ paragraphTag d a @ addLexicalClass rest d"
    unfolding addLexicalClass_def s cap by simp
  have "matchAll reParagraph 0 None (pre @ ?m @ rest) =
        matchAll reParagraph 0 (prevAfter None pre) (?m @ rest)"
    by (rule matchAll_prefix) (rule none)
  also have "matchAll reParagraph 0 (prevAfter None pre) (?m @ rest) =
        ?cs # matchAll reParagraph 0 (Some (last ?m)) rest"
    by (rule matchAll_match[OF m mne])
  also have "matchAll reParagraph 0 (Some (last ?m)) rest = matchAll reParagraph 0 None rest"
    by (rule matchAll_para_indep)
  finally show "paragraphAttrs s = a # paragraphAttrs rest"
    unfolding paragraphAttrs_def s using cap by simp
qed

lemma paragraph_none:
  assumes "rexec reParagraph None s = None"
  shows "addLexicalClass s d = s"
proof -
  let ?g = "\<lambda>fullMatch cs. paragraphTag d (capOr cs 1)"
  from assms have no: "\<And>u v. s = u @ v \<Longrightarrow>
       rmatch reParagraph (Map.empty, prevAfter None u, v) accept = None"
    using rexec_iff[of reParagraph None s] by blast
  have "replaceAll reParagraph ?g 0 None (s @ []) =
        s @ replaceAll reParagraph ?g 0 (prevAfter None s) []"
    by (rule replaceAll_prefix) (use no in simp)
  then show ?thesis by (simp add: addLexicalClass_def para_match)
qed

lemma paragraph_first:
  assumes "rexec reParagraph None s = Some (pre, m, cs, rest)"
  shows "\<exists>a. s = pre @ str ''<p'' @ a @ 62 # rest \<and> 62 \<notin> set a \<and> (a = [] \<or> isSpace (hd a))
           \<and> (\<forall>u' v'. pre = u' @ v' \<and> v' \<noteq> [] \<longrightarrow>
                  paraAt (v' @ str ''<p'' @ a @ 62 # rest) = None)"
proof -
  from rexec_Some_shape[OF assms] obtain v where s: "s = pre @ v"
    and m: "rmatch reParagraph (Map.empty, prevAfter None pre, v) accept = Some (cs, rest)"
    and first: "\<forall>u' v'. pre = u' @ v' \<and> v' \<noteq> [] \<longrightarrow>
                   rmatch reParagraph (Map.empty, prevAfter None u', v' @ v) accept = None"
    by blast
  from m obtain a where pa: "paraAt v = Some (a, rest)"
    by (auto simp: para_match split: option.splits)
  then have v: "v = str ''<p'' @ a @ 62 # rest" and a: "62 \<notin> set a" "a = [] \<or> isSpace (hd a)"
    by (simp_all add: paraAt_Some_iff)
  have "\<forall>u' v'. pre = u' @ v' \<and> v' \<noteq> [] \<longrightarrow> paraAt (v' @ str ''<p'' @ a @ 62 # rest) = None"
  proof (intro allI impI)
    fix u' v' assume h: "pre = u' @ v' \<and> v' \<noteq> []"
    with first have "rmatch reParagraph (Map.empty, prevAfter None u', v' @ v) accept = None"
      by blast
    then show "paraAt (v' @ str ''<p'' @ a @ 62 # rest) = None"
      unfolding v para_match by (cases "paraAt (v' @ str ''<p'' @ a @ 62 # rest)") auto
  qed
  with s v a show ?thesis by blast
qed

text \<open>
  C4, as amended. For the directions \<open>ltr\<close> and \<open>rtl\<close>, \<open>addLexicalClass\<close> is idempotent on
  every string in which no paragraph tag that it rewrites has attributes with a class
  attribute, without the theming class and without a direction attribute, whose
  double-quoted class value is found by the class-appending pattern only once the
  direction attribute has been appended (an opening quote that is not closed).
\<close>

theorem addLexicalClass_idempotent:
  assumes "d = str ''ltr'' \<or> d = str ''rtl''"
    and "\<forall>a \<in> set (paragraphAttrs x). \<not> danglingClass d a"
  shows "addLexicalClass (addLexicalClass x d) d = addLexicalClass x d"
  using assms(2)
proof (induction x rule: length_induct)
  case (1 s)
  show ?case
  proof (cases "rexec reParagraph None s")
    case None
    then show ?thesis by (simp add: paragraph_none)
  next
    case (Some y)
    obtain pre m cs rest where y: "y = (pre, m, cs, rest)" by (cases y)
    from paragraph_first[OF Some[unfolded y]] obtain a where
      s: "s = pre @ str ''<p'' @ a @ 62 # rest" and a: "62 \<notin> set a" "a = [] \<or> isSpace (hd a)"
      and first: "\<And>u' v'. pre = u' @ v' \<Longrightarrow> v' \<noteq> [] \<Longrightarrow>
                  paraAt (v' @ str ''<p'' @ a @ 62 # rest) = None"
      by blast
    note step = paragraph_step[OF s a first]
    let ?h = "paragraphNewAttrs d a"
    let ?r = "addLexicalClass rest d"
    have nd: "\<not> danglingClass d a" using "1.prems" step(2) by simp
    have rest: "\<forall>a \<in> set (paragraphAttrs rest). \<not> danglingClass d a"
      using "1.prems" step(2) by simp
    have "length rest < length s" unfolding s by simp
    with "1.IH" rest have IH: "addLexicalClass ?r d = ?r" by blast
    have h: "?h \<noteq> [] \<and> isSpace (hd ?h) \<and> 62 \<notin> set ?h"
      by (rule newAttrs_shape[OF a(2) a(1) assms(1)])
    have 1: "addLexicalClass s d = pre @ str ''<p'' @ ?h @ 62 # ?r"
      using step(1)[where d = d] by (simp add: paragraphTag_def str_def)
    have first': "\<And>u' v'. pre = u' @ v' \<Longrightarrow> v' \<noteq> [] \<Longrightarrow>
                  paraAt (v' @ str ''<p'' @ ?h @ 62 # ?r) = None"
      using paraAt_context[OF _ a(1) _ first] h by blast
    have "addLexicalClass (pre @ str ''<p'' @ ?h @ 62 # ?r) d =
          pre @ paragraphTag d ?h @ addLexicalClass ?r d"
      by (rule paragraph_step(1)[OF refl _ _ first']) (use h in auto)
    also have "\<dots> = pre @ paragraphTag d a @ ?r"
      unfolding IH paragraphTag_def newAttrs_idem[OF nd] ..
    finally have "addLexicalClass (addLexicalClass s d) d = pre @ paragraphTag d a @ ?r"
      unfolding 1 .
    then show ?thesis using step(1)[where d = d] by simp
  qed
qed

lemmas para_eval = str_def addLexicalClass_def paragraphAttrs_def paragraphTag_def
  paragraphNewAttrs_def danglingClass_def rtest_def replaceFirst_def capOr_def accept_def
  reParagraph_def reClassAttr_def reTheme_def reClassValue_def reDirAttr_def lit_Cons lit_Nil
  isSpace_def Let_def

theorem addLexicalClass_idempotent_witness:
  "addLexicalClass (addLexicalClass (str ''<p>hi</p><p class=\"foo\">x</p>'') (str ''ltr'')) (str ''ltr'') =
   addLexicalClass (str ''<p>hi</p><p class=\"foo\">x</p>'') (str ''ltr'')"
proof (rule addLexicalClass_idempotent)
  show "str ''ltr'' = str ''ltr'' \<or> str ''ltr'' = str ''rtl''" by simp
  show "\<forall>a \<in> set (paragraphAttrs (str ''<p>hi</p><p class=\"foo\">x</p>'')). \<not> danglingClass (str ''ltr'') a"
    by (simp add: para_eval)
qed

text \<open>
  C4 as stated fails. On \<open><p class="foo>\<close> the first pass finds a class attribute but no
  closed class value, so it only appends the direction: \<open><p class="foo dir="ltr">\<close>. On
  that, the quote of the direction closes the class value, and the second pass appends
  the theming class inside it. The second string is well-formed HTML (a single-quoted
  attribute value that holds a double quote) and fails in the same way.
\<close>

theorem addLexicalClass_not_idempotent:
  "addLexicalClass (str ''<p class=\"foo>'') (str ''ltr'') = str ''<p class=\"foo dir=\"ltr\">''
   \<and> addLexicalClass (addLexicalClass (str ''<p class=\"foo>'') (str ''ltr'')) (str ''ltr'') =
       str ''<p class=\"foo dir= LexicalTheme__paragraph\"ltr\">''
   \<and> addLexicalClass (addLexicalClass (str ''<p class=\"foo>'') (str ''ltr'')) (str ''ltr'') \<noteq>
       addLexicalClass (str ''<p class=\"foo>'') (str ''ltr'')
   \<and> addLexicalClass (addLexicalClass (str ''<p data-x='' @ [39] @ str ''class=\"'' @ [39] @ str ''>'') (str ''ltr'')) (str ''ltr'') \<noteq>
       addLexicalClass (str ''<p data-x='' @ [39] @ str ''class=\"'' @ [39] @ str ''>'') (str ''ltr'')"
  by (simp add: para_eval)

section \<open>The pattern of image sources\<close>

lemma canon_numeral [simp]:
  "canon (numeral k) = (if 97 \<le> (numeral k :: nat) \<and> (numeral k :: nat) \<le> 122 then numeral k - 32 else numeral k)"
  by (simp add: canon_def)























lemma img_indep: "rmatch reImgSrc (cs, p, x) k = rmatch reImgSrc (cs, p', x) k"
  by (cases x) (simp_all add: reImgSrc_def liti_Cons)

lemma replaceAll_img_indep:
  "replaceAll reImgSrc f k p s = replaceAll reImgSrc f k p' s"
  by (cases s) (simp_all add: img_indep[of _ p _ _ p'])
















end
